theory Spec2Isabelle
  imports Complex_Main "HOL-Library.Char_ord" "HOL-Library.List_Lexorder"
    "HOL-Library.Product_Lexorder"
begin

section \<open>The tabular data the engine works on\<close>

text \<open>
  \<^verbatim>\<open>kpis_advanced.py\<close> computes on a pandas DataFrame. The embedding keeps what the
  module observes of one:
  \<^item> a cell is a missing value of an object or float column (\<open>NaN\<close>, which also stands
    for \<open>None\<close>), the missing value of a datetime column (\<open>NaT\<close>), a text (\<open>Str\<close>, the
    bytes of its UTF-8 encoding) or a timestamp (\<open>Ts\<close>, an instant on an integer time
    line);
  \<^item> a frame has its column names, the names of its columns whose timestamps carry a
    time zone (\<open>tz_aware\<close>), and its rows; every row carries its index label, which
    survives boolean selection (\<open>data[mask]\<close> keeps the labels of the rows it keeps);
  \<^item> a Series is the list of its (label, value) pairs;
  \<^item> the exceptions the module can meet are values of \<open>error\<close>.
  A row is a function from column names to cells; a column that is not listed in
  \<open>columns\<close> is never read. Numbers as cells, and columns in which some timestamps
  carry a time zone and others do not, are not part of the embedding.
\<close>

datatype cell = NaN | NaT | Str string | Ts int

datatype error = KeyError | IndexingError | IndexError | TypeError

type_synonym row = "string \<Rightarrow> cell"

type_synonym 'a series = "(nat \<times> 'a) list"

record dataframe =
  columns :: "string list"
  tz_aware :: "string set"
  rows :: "(nat \<times> row) list"

definition bind_err :: "error + 'a \<Rightarrow> ('a \<Rightarrow> error + 'b) \<Rightarrow> error + 'b" where
  "bind_err x f = (case x of Inl e \<Rightarrow> Inl e | Inr v \<Rightarrow> f v)"

definition index :: "dataframe \<Rightarrow> nat list" where
  "index df = map fst (rows df)"

text \<open>\<open>df.empty\<close>: true when either axis has length 0.\<close>

definition df_empty :: "dataframe \<Rightarrow> bool" where
  "df_empty df = (rows df = [] \<or> columns df = [])"

text \<open>\<open>df[col]\<close>: the column as a Series on the frame's index, KeyError when absent.\<close>

definition getitem :: "dataframe \<Rightarrow> string \<Rightarrow> error + cell series" where
  "getitem df col =
     (if col \<in> set (columns df) then Inr (map (\<lambda>(l, r). (l, r col)) (rows df))
      else Inl KeyError)"

text \<open>
  \<open>df[col] = scalar\<close>: every row gets the value; a new column is appended. The column
  is no datetime column afterwards.
\<close>

definition setitem_scalar :: "dataframe \<Rightarrow> string \<Rightarrow> cell \<Rightarrow> dataframe" where
  "setitem_scalar df col v =
     df\<lparr>columns := (if col \<in> set (columns df) then columns df else columns df @ [col]),
        tz_aware := tz_aware df - {col},
        rows := map (\<lambda>(l, r). (l, r(col := v))) (rows df)\<rparr>"

text \<open>\<open>s.notna()\<close>, cell by cell.\<close>

definition notna :: "cell \<Rightarrow> bool" where
  "notna c = (c \<noteq> NaN \<and> c \<noteq> NaT)"

text \<open>Elementwise operations on a Series keep its index.\<close>

definition smap :: "('a \<Rightarrow> 'b) \<Rightarrow> 'a series \<Rightarrow> 'b series" where
  "smap f s = map (\<lambda>(l, v). (l, f v)) s"

text \<open>\<open>s.sum()\<close> of a boolean Series: the number of True entries.\<close>

definition ssum :: "bool series \<Rightarrow> int" where
  "ssum s = int (length (filter snd s))"

text \<open>\<open>pd.Series([False] * n)\<close>: a fresh Series on the default index 0..n-1.\<close>

definition series_false :: "nat \<Rightarrow> bool series" where
  "series_false n = map (\<lambda>i. (i, False)) [0..<n]"

text \<open>The values a Series holds under a label, in order.\<close>

definition values_at :: "'a series \<Rightarrow> nat \<Rightarrow> 'a list" where
  "values_at s l = map snd (filter (\<lambda>(k, v). k = l) s)"

text \<open>
  \<open>a & b\<close> and \<open>a | b\<close> on two boolean Series. With equal indexes pandas works position
  by position. Otherwise it joins the two indexes (outer join: a label that both
  operands hold several times gives every pair) and computes label by label, where
  \<^item> a label that the left operand lacks gives False, whatever the right operand holds;
  \<^item> a label that the right operand lacks is read as False there.
  The order of the labels of the join is not observed by this module.
\<close>

definition align_op :: "(bool \<Rightarrow> bool \<Rightarrow> bool) \<Rightarrow> bool series \<Rightarrow> bool series \<Rightarrow> bool series" where
  "align_op f a b =
     (if map fst a = map fst b then map (\<lambda>((l, x), (k, y)). (l, f x y)) (zip a b)
      else concat (map (\<lambda>l.
             case values_at a l of
               [] \<Rightarrow> map (\<lambda>y. (l, False)) (values_at b l)
             | x # xs \<Rightarrow>
                 (case values_at b l of
                    [] \<Rightarrow> map (\<lambda>x. (l, f x False)) (x # xs)
                  | y # ys \<Rightarrow> concat (map (\<lambda>x. map (\<lambda>y. (l, f x y)) (y # ys)) (x # xs))))
           (remdups (map fst a @ map fst b))))"

definition series_and :: "bool series \<Rightarrow> bool series \<Rightarrow> bool series" where
  "series_and a b = align_op (\<lambda>x y. x \<and> y) a b"

definition series_or :: "bool series \<Rightarrow> bool series \<Rightarrow> bool series" where
  "series_or a b = align_op (\<lambda>x y. x \<or> y) a b"

text \<open>
  \<open>df[key]\<close> with a boolean Series \<open>key\<close> (pandas 2). When the key's index equals the
  frame's, the key's values are used as they stand. Otherwise pandas re-indexes the key
  by the frame's labels: it raises IndexingError ("Unalignable boolean Series provided as
  indexer") when a label of the frame is missing from the key's index, and takes, for
  each row of the frame, every value the key holds under the row's label. If all the
  values are True the frame is returned whole; otherwise the rows at the positions of the
  True values are taken, and a position beyond the last row raises IndexError.
\<close>

fun take_true :: "'a list \<Rightarrow> bool list \<Rightarrow> error + 'a list" where
  "take_true rs [] = Inr []"
| "take_true [] (m # ms) = (if m then Inl IndexError else take_true [] ms)"
| "take_true (r # rs) (m # ms) =
     (case take_true rs ms of Inl e \<Rightarrow> Inl e | Inr out \<Rightarrow> Inr (if m then r # out else out))"

definition reindex_key :: "bool series \<Rightarrow> nat list \<Rightarrow> error + bool list" where
  "reindex_key key idx =
     (if map fst key = idx then Inr (map snd key)
      else if set idx \<subseteq> set (map fst key) then Inr (concat (map (values_at key) idx))
      else Inl IndexingError)"

definition getitem_bool :: "dataframe \<Rightarrow> bool series \<Rightarrow> error + dataframe" where
  "getitem_bool df key =
     bind_err (reindex_key key (index df)) (\<lambda>vals.
     if list_all (\<lambda>v. v) vals then Inr df
     else bind_err (take_true (rows df) vals) (\<lambda>rs. Inr (df\<lparr>rows := rs\<rparr>)))"

section \<open>Column names and tag vocabularies\<close>

definition call_col :: string where
  "call_col = ''Last Aircall call timestamp''"

definition tags_col :: string where
  "tags_col = ''Last used Aircall tags''"

definition status_col :: string where
  "status_col = ''lemlist lead status''"

definition phase_col :: string where
  "phase_col = ''Phase du cycle de vie''"

text \<open>The activity date column, "Date de la derniere activite" with its two accents, in UTF-8.\<close>

definition activity_col :: string where
  "activity_col = ''Date de la derni'' @ [CHR 0xC3, CHR 0xA8] @ ''re activit'' @ [CHR 0xC3, CHR 0xA9]"

definition campaign_col :: string where
  "campaign_col = ''Campagne''"

text \<open>The job title column, "Intitule du poste" with its accent, in UTF-8.\<close>

definition title_col :: string where
  "title_col = ''Intitul'' @ [CHR 0xC3, CHR 0xA9] @ '' du poste''"

definition sector_col :: string where
  "sector_col = ''Secteur''"

definition size_col :: string where
  "size_col = ''Taille d'' @ [CHR 0x27] @ ''entreprise''"

definition location_col :: string where
  "location_col = ''Localisation''"

definition CALL_TAGS_CONNECTED :: "string set" where
  "CALL_TAGS_CONNECTED = {''Meeting'', ''Pitch'', ''Sans Suite'', ''Standard''}"

definition CALL_TAGS_PITCHED :: "string set" where
  "CALL_TAGS_PITCHED = {''Meeting'', ''Pitch''}"

definition CALL_TAGS_RDV :: "string set" where
  "CALL_TAGS_RDV = {''Meeting''}"

section \<open>The tag parser\<close>

text \<open>
  A text is the list of the bytes of its UTF-8 encoding, on which equality and the
  lexicographic order agree with Python's on code points. \<open>str.strip()\<close> removes, at both
  ends, the characters for which \<open>str.isspace\<close> holds: the code points 09 to 0D, 1C to
  1F, 20, 85, A0, 1680, 2000 to 200A, 2028, 2029, 202F, 205F and 3000. \<open>whitespace\<close>
  lists their encodings; none of them is a prefix or a suffix of another character's.
\<close>

definition whitespace :: "string list" where
  "whitespace =
     [[CHR 0x09], [CHR 0x0A], [CHR 0x0B], [CHR 0x0C], [CHR 0x0D],
      [CHR 0x1C], [CHR 0x1D], [CHR 0x1E], [CHR 0x1F], [CHR 0x20],
      [CHR 0xC2, CHR 0x85], [CHR 0xC2, CHR 0xA0],
      [CHR 0xE1, CHR 0x9A, CHR 0x80],
      [CHR 0xE2, CHR 0x80, CHR 0x80], [CHR 0xE2, CHR 0x80, CHR 0x81],
      [CHR 0xE2, CHR 0x80, CHR 0x82], [CHR 0xE2, CHR 0x80, CHR 0x83],
      [CHR 0xE2, CHR 0x80, CHR 0x84], [CHR 0xE2, CHR 0x80, CHR 0x85],
      [CHR 0xE2, CHR 0x80, CHR 0x86], [CHR 0xE2, CHR 0x80, CHR 0x87],
      [CHR 0xE2, CHR 0x80, CHR 0x88], [CHR 0xE2, CHR 0x80, CHR 0x89],
      [CHR 0xE2, CHR 0x80, CHR 0x8A],
      [CHR 0xE2, CHR 0x80, CHR 0xA8], [CHR 0xE2, CHR 0x80, CHR 0xA9],
      [CHR 0xE2, CHR 0x80, CHR 0xAF],
      [CHR 0xE2, CHR 0x81, CHR 0x9F],
      [CHR 0xE3, CHR 0x80, CHR 0x80]]"

text \<open>The number of bytes of the character of \<open>seqs\<close> that \<open>s\<close> starts with, 0 if none.\<close>

definition lead_len :: "string list \<Rightarrow> string \<Rightarrow> nat" where
  "lead_len seqs s =
     (case find (\<lambda>w. w \<noteq> [] \<and> take (length w) s = w) seqs of None \<Rightarrow> 0 | Some w \<Rightarrow> length w)"

function lstrip :: "string list \<Rightarrow> string \<Rightarrow> string" where
  "lstrip seqs s = (if lead_len seqs s = 0 then s else lstrip seqs (drop (lead_len seqs s) s))"
  by pat_completeness auto
termination
proof (relation "measure (\<lambda>(seqs, s). length s)")
  show "wf (measure (\<lambda>(seqs, s). length s))"
    by simp
next
  fix seqs :: "string list" and s :: string
  assume pos: "lead_len seqs s \<noteq> 0"
  then obtain w where "find (\<lambda>w. w \<noteq> [] \<and> take (length w) s = w) seqs = Some w"
    by (auto simp: lead_len_def split: option.splits)
  then have "w \<noteq> []" and "take (length w) s = w"
    by (auto simp: find_Some_iff)
  then have "s \<noteq> []"
    by auto
  with pos show "((seqs, drop (lead_len seqs s) s), (seqs, s)) \<in> measure (\<lambda>(seqs, s). length s)"
    by simp
qed

definition strip :: "string \<Rightarrow> string" where
  "strip s = rev (lstrip (map rev whitespace) (rev (lstrip whitespace s)))"

text \<open>
  \<open>_split_tags\<close>: \<open>None\<close> and the float NaN give no tag. Anything else is turned into
  text with \<open>str\<close>, split at every run of \<open>;\<close>, \<open>,\<close> and \<open>|\<close>, and each piece is
  stripped; empty pieces are dropped. \<open>str\<close> of a timestamp is pandas' rendering, which is
  not part of the repository: it is the parameter \<open>ts_str\<close>. \<open>str\<close> of the missing value
  of a datetime column is "NaT".
\<close>

definition is_delim :: "char \<Rightarrow> bool" where
  "is_delim c = (c = CHR '';'' \<or> c = CHR '','' \<or> c = CHR ''|'')"

function re_split :: "string \<Rightarrow> string list" where
  "re_split [] = [[]]"
| "re_split (c # cs) =
     (if is_delim c then [] # re_split (dropWhile is_delim cs)
      else (case re_split cs of [] \<Rightarrow> [[c]] | p # ps \<Rightarrow> (c # p) # ps))"
  by pat_completeness auto
termination
  by (relation "measure length") (auto simp: length_dropWhile_le less_Suc_eq_le)

definition py_str :: "(int \<Rightarrow> string) \<Rightarrow> cell \<Rightarrow> string" where
  "py_str ts_str c = (case c of Str s \<Rightarrow> s | Ts t \<Rightarrow> ts_str t | NaT \<Rightarrow> ''NaT'' | NaN \<Rightarrow> ''nan'')"

definition split_tags :: "(int \<Rightarrow> string) \<Rightarrow> cell \<Rightarrow> string list" where
  "split_tags ts_str tag_value =
     (if tag_value = NaN then []
      else map strip (filter (\<lambda>p. strip p \<noteq> []) (re_split (py_str ts_str tag_value))))"

definition has_any_tag :: "string list \<Rightarrow> string set \<Rightarrow> bool" where
  "has_any_tag tags target_set = list_ex (\<lambda>tag. tag \<in> target_set) tags"

section \<open>The metrics engine\<close>

record metrics =
  calls_total :: int
  calls_connected :: int
  calls_pitched :: int
  rdv_phone :: int
  connection_rate :: rat
  pitch_rate :: rat
  rdv_phone_rate :: rat
  contacts_email :: int
  contacts_opened :: int
  contacts_replied :: int
  open_rate :: rat
  reply_rate :: rat
  rdv_email :: int
  rdv_total :: int
  email_conv_rate :: rat
  phone_conv_rate :: rat
  overall_conv_rate :: rat

text \<open>\<open>a / b if b else 0.0\<close>; Python's float division is read as exact division.\<close>

definition ratio_or_zero :: "int \<Rightarrow> int \<Rightarrow> rat" where
  "ratio_or_zero a b = (if b \<noteq> 0 then of_int a / of_int b else 0)"

text \<open>The loop that adds each expected column that is absent, filled with NaN.\<close>

definition ensure_column :: "dataframe \<Rightarrow> string \<Rightarrow> dataframe" where
  "ensure_column data col = (if col \<in> set (columns data) then data else setitem_scalar data col NaN)"

text \<open>\<open>s.fillna("")\<close>, cell by cell.\<close>

definition fillna_empty :: "cell \<Rightarrow> cell" where
  "fillna_empty c = (if notna c then c else Str [])"

definition compute_metrics :: "(int \<Rightarrow> string) \<Rightarrow> dataframe \<Rightarrow> error + metrics" where
  "compute_metrics ts_str df =
     (let data = foldl ensure_column df [call_col, tags_col, status_col, phase_col] in
      bind_err (getitem data call_col) (\<lambda>call_ts.
      let called_mask = smap notna call_ts;
          calls_total = ssum called_mask in
      bind_err (getitem data tags_col) (\<lambda>raw_tags.
      let tags_series = smap (split_tags ts_str) raw_tags;
          connected_mask = series_and (smap (\<lambda>tags. has_any_tag tags CALL_TAGS_CONNECTED) tags_series) called_mask;
          pitched_mask = series_and (smap (\<lambda>tags. has_any_tag tags CALL_TAGS_PITCHED) tags_series) called_mask;
          rdv_phone_mask = series_and (smap (\<lambda>tags. has_any_tag tags CALL_TAGS_RDV) tags_series) called_mask;
          calls_connected = ssum connected_mask;
          calls_pitched = ssum pitched_mask;
          rdv_phone = ssum rdv_phone_mask in
      bind_err (getitem data status_col) (\<lambda>status.
      let mailed_mask = smap (\<lambda>c. fillna_empty c \<noteq> Str []) status;
          contacts_email = ssum mailed_mask;
          contacts_opened = ssum (smap (\<lambda>c. c = Str ''Email opened'') status);
          contacts_replied = ssum (smap (\<lambda>c. c = Str ''Email replied'') status) in
      bind_err (getitem data phase_col) (\<lambda>phase.
      let rdv_email_mask =
            series_and
              (series_and (smap (\<lambda>c. c = Str ''RDV - Bon contact'') phase)
                          (smap (\<lambda>c. c = Str ''Email replied'') status))
              (smap Not rdv_phone_mask);
          rdv_email = ssum rdv_email_mask;
          rdv_total = rdv_phone + rdv_email in
      Inr \<lparr>calls_total = calls_total,
           calls_connected = calls_connected,
           calls_pitched = calls_pitched,
           rdv_phone = rdv_phone,
           connection_rate = ratio_or_zero calls_connected calls_total,
           pitch_rate = ratio_or_zero calls_pitched calls_connected,
           rdv_phone_rate = ratio_or_zero rdv_phone calls_total,
           contacts_email = contacts_email,
           contacts_opened = contacts_opened,
           contacts_replied = contacts_replied,
           open_rate = ratio_or_zero contacts_opened contacts_email,
           reply_rate = ratio_or_zero contacts_replied contacts_email,
           rdv_email = rdv_email,
           rdv_total = rdv_total,
           email_conv_rate = ratio_or_zero rdv_email contacts_email,
           phone_conv_rate = ratio_or_zero rdv_phone calls_total,
           overall_conv_rate =
             of_int rdv_total /
             of_int (max (contacts_email + calls_total - ssum (series_and rdv_email_mask called_mask)) 1)\<rparr>)))))"

section \<open>The distribution engine\<close>

record dist_row =
  tag :: string
  count :: int
  rate :: rat

text \<open>\<open>tag_counts[tag] = tag_counts.get(tag, 0) + 1\<close> on a dict that keeps insertion order.\<close>

definition bump :: "(string \<times> int) list \<Rightarrow> string \<Rightarrow> (string \<times> int) list" where
  "bump tag_counts t =
     (case map_of tag_counts t of
        None \<Rightarrow> tag_counts @ [(t, 1)]
      | Some n \<Rightarrow> map (\<lambda>(k, v). if k = t then (k, n + 1) else (k, v)) tag_counts)"

text \<open>
  The rows are visited in order; \<open>set(tags)\<close> visits each distinct tag of a row once
  (in an order Python does not fix, and which the final sort makes unobservable, the sort
  keys being pairwise different).
\<close>

definition compute_call_distribution :: "(int \<Rightarrow> string) \<Rightarrow> dataframe \<Rightarrow> error + dist_row list" where
  "compute_call_distribution ts_str df =
     (if df_empty df then Inr []
      else
        bind_err (getitem df call_col) (\<lambda>call_ts.
        let total_calls = ssum (smap notna call_ts) in
        if total_calls = 0 then Inr []
        else
          bind_err (getitem df tags_col) (\<lambda>raw_tags.
          let tag_counts =
                foldl (\<lambda>tc tags. foldl bump tc (remdups tags)) []
                  (map snd (smap (split_tags ts_str) raw_tags)) in
          Inr (map (\<lambda>(t, n). \<lparr>tag = t, count = n, rate = of_int n / of_int total_calls\<rparr>)
                 (sort_key (\<lambda>(t, n). (- n, t)) tag_counts)))))"

section \<open>The filter engine\<close>

text \<open>
  A bound of the date range is a \<open>pd.Timestamp\<close>: an instant, with or without a time
  zone.
\<close>

datatype timestamp = Timestamp (ts_aware: bool) (ts_instant: int)

record criteria =
  campaigns :: "string list option"
  titles :: "string list option"
  sectors :: "string list option"
  sizes :: "string list option"
  locations :: "string list option"
  start_date :: "timestamp option"
  end_date :: "timestamp option"

text \<open>
  \<open>pd.to_datetime(column, errors="coerce")\<close> works on the column as a whole. A column
  that holds no text holds the same instants afterwards, under the same time zone
  setting, and the missing value of a datetime column where a value was missing. The
  conversion of a column that holds text is pandas' business (it settles on one format
  for the whole column, and on whether the result carries a time zone): it is the
  parameter \<open>conv\<close>, which is given what the frame tells about the column (whether its
  timestamps carry a time zone, and its cells) and answers whether the result carries a
  time zone and, for each position, the instant the cell has become, if any. The result
  has the length of the column and holds no text.
\<close>

type_synonym conversion = "bool \<Rightarrow> cell list \<Rightarrow> bool \<times> int option list"

definition is_text :: "cell \<Rightarrow> bool" where
  "is_text c = (case c of Str s \<Rightarrow> True | _ \<Rightarrow> False)"

definition coerced :: "int option \<Rightarrow> cell" where
  "coerced v = (case v of None \<Rightarrow> NaT | Some t \<Rightarrow> Ts t)"

definition to_datetime :: "conversion \<Rightarrow> bool \<Rightarrow> cell list \<Rightarrow> bool \<times> cell list" where
  "to_datetime conv aware cs =
     (if list_ex is_text cs
      then (fst (conv aware cs),
            take (length cs) (map coerced (snd (conv aware cs)) @ replicate (length cs) NaT))
      else (aware, map (\<lambda>c. if c = NaN then NaT else c) cs))"

text \<open>
  \<open>data[col] = pd.to_datetime(data[col], errors="coerce")\<close> for a column that is
  present: the converted column has the frame's index, so it is stored position by
  position.
\<close>

definition to_datetime_col :: "conversion \<Rightarrow> dataframe \<Rightarrow> string \<Rightarrow> dataframe" where
  "to_datetime_col conv data col =
     (if col \<in> set (columns data)
      then (case to_datetime conv (col \<in> tz_aware data) (map (\<lambda>(l, r). r col) (rows data)) of
              (aware, cs) \<Rightarrow>
                data\<lparr>tz_aware := (if aware then insert col (tz_aware data) else tz_aware data - {col}),
                     rows := map (\<lambda>((l, r), c). (l, r(col := c))) (zip (rows data) cs)\<rparr>)
      else data)"

text \<open>
  Comparing a cell of a datetime column with a bound: false on a missing value. After the
  conversion such a column holds no text.
\<close>

definition cell_ge :: "cell \<Rightarrow> timestamp \<Rightarrow> bool" where
  "cell_ge c bound = (case c of Ts t \<Rightarrow> ts_instant bound \<le> t | _ \<Rightarrow> False)"

definition cell_le :: "cell \<Rightarrow> timestamp \<Rightarrow> bool" where
  "cell_le c bound = (case c of Ts t \<Rightarrow> t \<le> ts_instant bound | _ \<Rightarrow> False)"

text \<open>
  One of \<open>mask_call\<close>, \<open>mask_email\<close>: \<open>data[col].notna() & (data[col] >= bound)\<close> when the
  column is there, \<open>pd.Series([False] * len(data))\<close> when it is not. The comparison of a
  column that carries a time zone with a bound that carries none, or of a column that
  carries none with a bound that carries one, raises TypeError.
\<close>

definition date_mask :: "(cell \<Rightarrow> timestamp \<Rightarrow> bool) \<Rightarrow> dataframe \<Rightarrow> string \<Rightarrow> timestamp \<Rightarrow> error + bool series" where
  "date_mask cmp data col bound =
     (if col \<in> set (columns data)
      then bind_err (getitem data col) (\<lambda>s.
             if (col \<in> tz_aware data) = ts_aware bound
             then Inr (series_and (smap notna s) (smap (\<lambda>c. cmp c bound) s))
             else Inl TypeError)
      else Inr (series_false (length (rows data))))"

text \<open>\<open>data[mask_call | mask_email | ((mask_call | mask_email).sum() == 0)]\<close>.\<close>

definition date_filter :: "(cell \<Rightarrow> timestamp \<Rightarrow> bool) \<Rightarrow> dataframe \<Rightarrow> timestamp \<Rightarrow> error + dataframe" where
  "date_filter cmp data bound =
     bind_err (date_mask cmp data call_col bound) (\<lambda>mask_call.
     bind_err (date_mask cmp data activity_col bound) (\<lambda>mask_email.
     let either = series_or mask_call mask_email in
     getitem_bool data (smap (\<lambda>v. v \<or> ssum either = 0) either)))"

text \<open>\<open>Series.isin(values)\<close> for a list of texts.\<close>

definition isin :: "cell \<Rightarrow> string list \<Rightarrow> bool" where
  "isin c values = (case c of Str s \<Rightarrow> s \<in> set values | _ \<Rightarrow> False)"

definition filter_if_possible :: "dataframe \<Rightarrow> string \<Rightarrow> string list option \<Rightarrow> error + dataframe" where
  "filter_if_possible frame column values =
     (case values of
        None \<Rightarrow> Inr frame
      | Some vs \<Rightarrow>
          if vs \<noteq> [] then
            if column \<in> set (columns frame)
            then bind_err (getitem frame column) (\<lambda>s.
                   getitem_bool frame (smap (\<lambda>c. isin (fillna_empty c) vs) s))
            else Inr frame
          else Inr frame)"

definition apply_filters :: "conversion \<Rightarrow> dataframe \<Rightarrow> criteria \<Rightarrow> error + dataframe" where
  "apply_filters conv df crit =
     (let data = foldl (to_datetime_col conv) df [call_col, activity_col] in
      bind_err (case start_date crit of None \<Rightarrow> Inr data
                | Some s \<Rightarrow> date_filter cell_ge data s) (\<lambda>data.
      bind_err (case end_date crit of None \<Rightarrow> Inr data
                | Some e \<Rightarrow> date_filter cell_le data e) (\<lambda>data.
      bind_err (filter_if_possible data campaign_col (campaigns crit)) (\<lambda>data.
      bind_err (filter_if_possible data title_col (titles crit)) (\<lambda>data.
      bind_err (filter_if_possible data sector_col (sectors crit)) (\<lambda>data.
      bind_err (filter_if_possible data size_col (sizes crit)) (\<lambda>data.
      filter_if_possible data location_col (locations crit))))))))"

section \<open>Reading a frame row by row\<close>

text \<open>
  The vocabulary of the statements below. \<open>cell_of df r col\<close> is the cell of row \<open>r\<close> in
  column \<open>col\<close>, a column that the frame lacks being read as missing everywhere;
  \<open>column_cells df col\<close> is the list of the cells of a column, from the first row to the
  last; \<open>count_rows P df\<close> is the number of rows that satisfy \<open>P\<close>; \<open>row_series g\<close> is
  the Series that holds \<open>g r\<close> at the label of each row \<open>r\<close>; \<open>keep_rows P df\<close> keeps
  the rows that satisfy \<open>P\<close>, and \<open>keep_or_all P df\<close> does so unless no row satisfies
  \<open>P\<close>, in which case it keeps them all.
\<close>

definition row_series :: "(row \<Rightarrow> 'a) \<Rightarrow> (nat \<times> row) list \<Rightarrow> 'a series" where
  "row_series g rws = map (\<lambda>(l, r). (l, g r)) rws"

definition cell_of :: "dataframe \<Rightarrow> row \<Rightarrow> string \<Rightarrow> cell" where
  "cell_of df r col = (if col \<in> set (columns df) then r col else NaN)"

definition column_cells :: "dataframe \<Rightarrow> string \<Rightarrow> cell list" where
  "column_cells df col = map (\<lambda>(l, r). r col) (rows df)"

definition count_rows :: "(row \<Rightarrow> bool) \<Rightarrow> dataframe \<Rightarrow> int" where
  "count_rows P df = int (length (filter (\<lambda>(l, r). P r) (rows df)))"

definition keep_rows :: "(row \<Rightarrow> bool) \<Rightarrow> dataframe \<Rightarrow> dataframe" where
  "keep_rows P df = df\<lparr>rows := filter (\<lambda>(l, r). P r) (rows df)\<rparr>"

definition keep_or_all :: "(row \<Rightarrow> bool) \<Rightarrow> dataframe \<Rightarrow> dataframe" where
  "keep_or_all P df = (if list_ex (\<lambda>(l, r). P r) (rows df) then keep_rows P df else df)"

subsection \<open>The rows that the metrics count\<close>

text \<open>
  The working copy of \<open>compute_metrics\<close> after its loop over the four expected columns,
  and the rows behind each of its masks: called, carrying a tag of a vocabulary, mailed,
  a meeting by telephone, a meeting by e-mail.
\<close>

definition ensured :: "dataframe \<Rightarrow> dataframe" where
  "ensured df = foldl ensure_column df [call_col, tags_col, status_col, phase_col]"

definition called :: "dataframe \<Rightarrow> row \<Rightarrow> bool" where
  "called df r = notna (cell_of df r call_col)"

definition tagged :: "(int \<Rightarrow> string) \<Rightarrow> dataframe \<Rightarrow> string set \<Rightarrow> row \<Rightarrow> bool" where
  "tagged ts_str df S r = has_any_tag (split_tags ts_str (cell_of df r tags_col)) S"

definition mailed :: "dataframe \<Rightarrow> row \<Rightarrow> bool" where
  "mailed df r = (fillna_empty (cell_of df r status_col) \<noteq> Str [])"

definition rdv_phone_row :: "(int \<Rightarrow> string) \<Rightarrow> dataframe \<Rightarrow> row \<Rightarrow> bool" where
  "rdv_phone_row ts_str df r = (tagged ts_str df CALL_TAGS_RDV r \<and> called df r)"

definition rdv_email_row :: "(int \<Rightarrow> string) \<Rightarrow> dataframe \<Rightarrow> row \<Rightarrow> bool" where
  "rdv_email_row ts_str df r =
     ((cell_of df r phase_col = Str ''RDV - Bon contact'' \<and> cell_of df r status_col = Str ''Email replied'')
      \<and> \<not> rdv_phone_row ts_str df r)"

subsection \<open>The steps of the filter engine\<close>

text \<open>
  \<open>with_parsed_dates conv df\<close> is the dataset after the conversion loop of
  \<open>apply_filters\<close>, before any filter. A frame has \<open>datetime_columns\<close> when each of its
  date columns that is present holds nothing but instants and the missing value of a
  datetime column, as after the conversion. \<open>bound_ok cmp df b\<close> holds of a row when one
  of its two date cells meets the bound. \<open>cat_filter\<close> and \<open>cat_filters\<close> say which rows
  one categorical list and the five categorical lists keep; \<open>date_step\<close> is the date
  filter when the bound is given.
\<close>

definition with_parsed_dates :: "conversion \<Rightarrow> dataframe \<Rightarrow> dataframe" where
  "with_parsed_dates conv df = foldl (to_datetime_col conv) df [call_col, activity_col]"

definition is_datetime :: "cell \<Rightarrow> bool" where
  "is_datetime c = (case c of Ts t \<Rightarrow> True | NaT \<Rightarrow> True | _ \<Rightarrow> False)"

definition datetime_column :: "dataframe \<Rightarrow> string \<Rightarrow> bool" where
  "datetime_column d col = (col \<notin> set (columns d) \<or> list_all is_datetime (column_cells d col))"

definition datetime_columns :: "dataframe \<Rightarrow> bool" where
  "datetime_columns d = (datetime_column d call_col \<and> datetime_column d activity_col)"

definition bound_ok :: "(cell \<Rightarrow> timestamp \<Rightarrow> bool) \<Rightarrow> dataframe \<Rightarrow> timestamp \<Rightarrow> row \<Rightarrow> bool" where
  "bound_ok cmp df b r = (cmp (cell_of df r call_col) b \<or> cmp (cell_of df r activity_col) b)"

definition date_step :: "(cell \<Rightarrow> timestamp \<Rightarrow> bool) \<Rightarrow> timestamp option \<Rightarrow> dataframe \<Rightarrow> error + dataframe" where
  "date_step cmp bound d = (case bound of None \<Rightarrow> Inr d | Some b \<Rightarrow> date_filter cmp d b)"

definition cat_filter :: "string \<Rightarrow> string list option \<Rightarrow> dataframe \<Rightarrow> dataframe" where
  "cat_filter col vals d =
     (case vals of None \<Rightarrow> d
      | Some vs \<Rightarrow> if vs \<noteq> [] \<and> col \<in> set (columns d)
                   then keep_rows (\<lambda>r. isin (fillna_empty (r col)) vs) d else d)"

definition cat_filters :: "criteria \<Rightarrow> dataframe \<Rightarrow> dataframe" where
  "cat_filters crit d =
     cat_filter location_col (locations crit)
       (cat_filter size_col (sizes crit)
         (cat_filter sector_col (sectors crit)
           (cat_filter title_col (titles crit)
             (cat_filter campaign_col (campaigns crit) d))))"

subsection \<open>Individual filters and their order\<close>

text \<open>
  An individual filter is the engine run with one criterion only. \<open>spec_order\<close> chains
  the seven individual filters in the order the specification gives (campaign, job title,
  sector, company size, location, start date, end date), \<open>code_order\<close> in the order
  start date, end date, campaign, job title, sector, company size, location.
\<close>

definition no_criteria :: criteria where
  "no_criteria = \<lparr>campaigns = None, titles = None, sectors = None, sizes = None,
                  locations = None, start_date = None, end_date = None\<rparr>"

definition code_order :: "conversion \<Rightarrow> dataframe \<Rightarrow> criteria \<Rightarrow> error + dataframe" where
  "code_order conv df crit =
     bind_err (apply_filters conv df (no_criteria\<lparr>start_date := start_date crit\<rparr>)) (\<lambda>d.
     bind_err (apply_filters conv d (no_criteria\<lparr>end_date := end_date crit\<rparr>)) (\<lambda>d.
     bind_err (apply_filters conv d (no_criteria\<lparr>campaigns := campaigns crit\<rparr>)) (\<lambda>d.
     bind_err (apply_filters conv d (no_criteria\<lparr>titles := titles crit\<rparr>)) (\<lambda>d.
     bind_err (apply_filters conv d (no_criteria\<lparr>sectors := sectors crit\<rparr>)) (\<lambda>d.
     bind_err (apply_filters conv d (no_criteria\<lparr>sizes := sizes crit\<rparr>)) (\<lambda>d.
     apply_filters conv d (no_criteria\<lparr>locations := locations crit\<rparr>)))))))"

definition spec_order :: "conversion \<Rightarrow> dataframe \<Rightarrow> criteria \<Rightarrow> error + dataframe" where
  "spec_order conv df crit =
     bind_err (apply_filters conv df (no_criteria\<lparr>campaigns := campaigns crit\<rparr>)) (\<lambda>d.
     bind_err (apply_filters conv d (no_criteria\<lparr>titles := titles crit\<rparr>)) (\<lambda>d.
     bind_err (apply_filters conv d (no_criteria\<lparr>sectors := sectors crit\<rparr>)) (\<lambda>d.
     bind_err (apply_filters conv d (no_criteria\<lparr>sizes := sizes crit\<rparr>)) (\<lambda>d.
     bind_err (apply_filters conv d (no_criteria\<lparr>locations := locations crit\<rparr>)) (\<lambda>d.
     bind_err (apply_filters conv d (no_criteria\<lparr>start_date := start_date crit\<rparr>)) (\<lambda>d.
     apply_filters conv d (no_criteria\<lparr>end_date := end_date crit\<rparr>)))))))"

subsection \<open>Dates\<close>

text \<open>
  Over a dataset whose date columns are converted: the instant a row holds in a column,
  if any; a row with an instant on or after (on or before) a bound in either date column;
  a row with no instant at all.
\<close>

definition instant :: "dataframe \<Rightarrow> row \<Rightarrow> string \<Rightarrow> int option" where
  "instant d r col = (case cell_of d r col of Ts t \<Rightarrow> Some t | _ \<Rightarrow> None)"

definition on_or_after :: "dataframe \<Rightarrow> int \<Rightarrow> row \<Rightarrow> bool" where
  "on_or_after d s r =
     ((case instant d r call_col of Some t \<Rightarrow> s \<le> t | None \<Rightarrow> False)
      \<or> (case instant d r activity_col of Some t \<Rightarrow> s \<le> t | None \<Rightarrow> False))"

definition on_or_before :: "dataframe \<Rightarrow> int \<Rightarrow> row \<Rightarrow> bool" where
  "on_or_before d e r =
     ((case instant d r call_col of Some t \<Rightarrow> t \<le> e | None \<Rightarrow> False)
      \<or> (case instant d r activity_col of Some t \<Rightarrow> t \<le> e | None \<Rightarrow> False))"

definition undated :: "dataframe \<Rightarrow> row \<Rightarrow> bool" where
  "undated d r = (instant d r call_col = None \<and> instant d r activity_col = None)"

text \<open>
  The rows claim C4 says a start bound retains: those with an instant on or after the
  bound, and the undated ones when no row has such an instant.
\<close>

definition claimed_start_rows :: "conversion \<Rightarrow> dataframe \<Rightarrow> int \<Rightarrow> (nat \<times> row) list" where
  "claimed_start_rows conv df s =
     (let d = with_parsed_dates conv df in
      filter (\<lambda>(l, r). on_or_after d s r
                \<or> (undated d r \<and> \<not> list_ex (\<lambda>(l, r). on_or_after d s r) (rows d))) (rows d))"

text \<open>
  What the date filter needs in order to select the rows its masks describe. The mask
  that stands in for an absent date column bears the labels 0..n-1, whatever the labels
  of the rows, and \<open>|\<close> and the selection align such masks by label. Nothing is to
  align when both date columns are present. Otherwise the labels of the rows must be
  pairwise distinct and, unless the call timestamp column (the left operand of \<open>|\<close>) is
  present, all below the number of rows; the default labels 0..n-1 of a freshly loaded
  dataset are. And each date column that is present must be comparable with the bound:
  both with a time zone, or both without.
\<close>

definition labels_align :: "dataframe \<Rightarrow> bool" where
  "labels_align df =
     ((call_col \<in> set (columns df) \<and> activity_col \<in> set (columns df))
      \<or> (distinct (index df)
          \<and> (call_col \<in> set (columns df) \<or> set (index df) \<subseteq> {..<length (rows df)})))"

definition comparable_column :: "dataframe \<Rightarrow> string \<Rightarrow> timestamp \<Rightarrow> bool" where
  "comparable_column d col b = (col \<notin> set (columns d) \<or> (col \<in> tz_aware d) = ts_aware b)"

definition comparable :: "dataframe \<Rightarrow> timestamp \<Rightarrow> bool" where
  "comparable d b = (comparable_column d call_col b \<and> comparable_column d activity_col b)"

subsection \<open>Example datasets\<close>

text \<open>
  Two contacts: one of campaign A called at instant 20, one of campaign B called at
  instant 5; the criteria ask for campaign B from instant 10 on. No timestamp of the
  examples carries a time zone.
\<close>

definition order_example :: dataframe where
  "order_example =
     \<lparr>columns = [call_col, campaign_col], tz_aware = {},
      rows = [(0, (\<lambda>c. NaN)(call_col := Ts 20, campaign_col := Str ''A'')),
              (1, (\<lambda>c. NaN)(call_col := Ts 5, campaign_col := Str ''B''))]\<rparr>"

definition order_criteria :: criteria where
  "order_criteria = no_criteria\<lparr>campaigns := Some [''B''], start_date := Some (Timestamp False 10)\<rparr>"

text \<open>The same two contacts in a dataset that has neither date column.\<close>

definition undated_example :: dataframe where
  "undated_example =
     \<lparr>columns = [campaign_col], tz_aware = {},
      rows = [(0, (\<lambda>c. NaN)(campaign_col := Str ''A'')),
              (1, (\<lambda>c. NaN)(campaign_col := Str ''B''))]\<rparr>"

text \<open>One contact, called at instant 5.\<close>

definition early_call_example :: dataframe where
  "early_call_example =
     \<lparr>columns = [call_col], tz_aware = {}, rows = [(0, (\<lambda>c. NaN)(call_col := Ts 5))]\<rparr>"

text \<open>One contact whose call timestamp is a text, in a dataset without a campaign column.\<close>

definition text_date_example :: dataframe where
  "text_date_example =
     \<lparr>columns = [call_col, tags_col], tz_aware = {},
      rows = [(0, (\<lambda>c. NaN)(call_col := Str ''unknown'', tags_col := Str ''Pitch''))]\<rparr>"

text \<open>Two contacts with the same tag, of which only the first was called.\<close>

definition stray_tag_example :: dataframe where
  "stray_tag_example =
     \<lparr>columns = [call_col, tags_col], tz_aware = {},
      rows = [(0, (\<lambda>c. NaN)(call_col := Str ''2024-03-01 09:30:00'', tags_col := Str ''Pitch'')),
              (1, (\<lambda>c. NaN)(tags_col := Str ''Pitch''))]\<rparr>"

text \<open>The same two contacts in an export that lacks the call timestamp column.\<close>

definition no_timestamp_example :: dataframe where
  "no_timestamp_example =
     \<lparr>columns = [tags_col], tz_aware = {},
      rows = [(0, (\<lambda>c. NaN)(tags_col := Str ''Pitch'')),
              (1, (\<lambda>c. NaN)(tags_col := Str ''Pitch''))]\<rparr>"

text \<open>
  Scenario B of the specification: three contacts, the first called and tagged
  "Meeting, Pitch", the second called and tagged "Standard", the third tagged "Pitch" and
  never called.
\<close>

definition scenario_b :: dataframe where
  "scenario_b =
     \<lparr>columns = [call_col, tags_col], tz_aware = {},
      rows = [(0, (\<lambda>c. NaN)(call_col := Str ''2024-03-01 09:30:00'', tags_col := Str ''Meeting, Pitch'')),
              (1, (\<lambda>c. NaN)(call_col := Str ''2024-03-02 14:00:00'', tags_col := Str ''Standard'')),
              (2, (\<lambda>c. NaN)(tags_col := Str ''Pitch''))]\<rparr>"

text \<open>
  Two contacts under the labels 5 and 7, in a dataset whose only date column is the
  activity date: 20 for the first, 5 for the second.
\<close>

definition relabelled_example :: dataframe where
  "relabelled_example =
     \<lparr>columns = [activity_col], tz_aware = {},
      rows = [(5, (\<lambda>c. NaN)(activity_col := Ts 20)),
              (7, (\<lambda>c. NaN)(activity_col := Ts 5))]\<rparr>"

text \<open>
  One contact, called, who replied and is in the RDV phase, and whose tag is "Meeting"
  followed by a no-break space (U+00A0).
\<close>

definition padded_tag_example :: dataframe where
  "padded_tag_example =
     \<lparr>columns = [call_col, tags_col, status_col, phase_col], tz_aware = {},
      rows = [(0, (\<lambda>c. NaN)(call_col := Str ''2024-03-01 09:30:00'',
                               tags_col := Str (''Meeting'' @ [CHR 0xC2, CHR 0xA0]),
                               status_col := Str ''Email replied'',
                               phase_col := Str ''RDV - Bon contact''))]\<rparr>"

section \<open>Series computed from the rows\<close>

lemma notna_simps [simp]:
  "\<not> notna NaN" "\<not> notna NaT" "notna (Str s)" "notna (Ts t)"
  by (simp_all add: notna_def)

lemma getitem_row_series:
  "col \<in> set (columns df) \<Longrightarrow> getitem df col = Inr (row_series (\<lambda>r. r col) (rows df))"
  by (simp add: getitem_def row_series_def)

lemma smap_row_series: "smap f (row_series g rws) = row_series (\<lambda>r. f (g r)) rws"
  by (simp add: smap_def row_series_def case_prod_unfold)

lemma index_row_series: "map fst (row_series g rws) = map fst rws"
  by (simp add: row_series_def case_prod_unfold)

lemma zip_row_series:
  "map (\<lambda>((l, x), (k, y)). (l, f x y)) (zip (row_series p rws) (row_series q rws))
   = row_series (\<lambda>r. f (p r) (q r)) rws"
  by (induction rws) (auto simp: row_series_def)

lemma align_op_row_series:
  "align_op f (row_series p rws) (row_series q rws) = row_series (\<lambda>r. f (p r) (q r)) rws"
  by (simp add: align_op_def index_row_series zip_row_series)

lemma series_and_row_series:
  "series_and (row_series p rws) (row_series q rws) = row_series (\<lambda>r. p r \<and> q r) rws"
  by (simp add: series_and_def align_op_row_series)

lemma series_or_row_series:
  "series_or (row_series p rws) (row_series q rws) = row_series (\<lambda>r. p r \<or> q r) rws"
  by (simp add: series_or_def align_op_row_series)

lemma ssum_row_series: "ssum (row_series p rws) = int (length (filter (\<lambda>(l, r). p r) rws))"
  by (induction rws) (auto simp: ssum_def row_series_def)

lemma col_names_distinct:
  "distinct [call_col, tags_col, status_col, phase_col]"
  by (simp add: call_col_def tags_col_def status_col_def phase_col_def)

lemma ensure_column_columns: "set (columns (ensure_column d c)) = insert c (set (columns d))"
  by (auto simp: ensure_column_def setitem_scalar_def)

lemma ensure_column_rows:
  "rows (ensure_column d c) = map (\<lambda>(l, r). (l, if c \<in> set (columns d) then r else r(c := NaN))) (rows d)"
  by (auto simp: ensure_column_def setitem_scalar_def)

lemma getitem_ensured:
  assumes "c \<in> {call_col, tags_col, status_col, phase_col}"
  shows "getitem (ensured df) c = Inr (row_series (\<lambda>r. cell_of df r c) (rows df))"
  using assms col_names_distinct
  by (auto simp: ensured_def getitem_def ensure_column_columns ensure_column_rows row_series_def cell_of_def case_prod_unfold comp_def)

lemma foldl_ensured: "foldl ensure_column df [call_col, tags_col, status_col, phase_col] = ensured df"
  by (simp add: ensured_def)

lemma compute_metrics_eq:
  "compute_metrics ts_str df =
     Inr \<lparr>calls_total = count_rows (called df) df,
          calls_connected = count_rows (\<lambda>r. tagged ts_str df CALL_TAGS_CONNECTED r \<and> called df r) df,
          calls_pitched = count_rows (\<lambda>r. tagged ts_str df CALL_TAGS_PITCHED r \<and> called df r) df,
          rdv_phone = count_rows (rdv_phone_row ts_str df) df,
          connection_rate = ratio_or_zero (count_rows (\<lambda>r. tagged ts_str df CALL_TAGS_CONNECTED r \<and> called df r) df) (count_rows (called df) df),
          pitch_rate = ratio_or_zero (count_rows (\<lambda>r. tagged ts_str df CALL_TAGS_PITCHED r \<and> called df r) df)
                         (count_rows (\<lambda>r. tagged ts_str df CALL_TAGS_CONNECTED r \<and> called df r) df),
          rdv_phone_rate = ratio_or_zero (count_rows (rdv_phone_row ts_str df) df) (count_rows (called df) df),
          contacts_email = count_rows (mailed df) df,
          contacts_opened = count_rows (\<lambda>r. cell_of df r status_col = Str ''Email opened'') df,
          contacts_replied = count_rows (\<lambda>r. cell_of df r status_col = Str ''Email replied'') df,
          open_rate = ratio_or_zero (count_rows (\<lambda>r. cell_of df r status_col = Str ''Email opened'') df) (count_rows (mailed df) df),
          reply_rate = ratio_or_zero (count_rows (\<lambda>r. cell_of df r status_col = Str ''Email replied'') df) (count_rows (mailed df) df),
          rdv_email = count_rows (rdv_email_row ts_str df) df,
          rdv_total = count_rows (rdv_phone_row ts_str df) df + count_rows (rdv_email_row ts_str df) df,
          email_conv_rate = ratio_or_zero (count_rows (rdv_email_row ts_str df) df) (count_rows (mailed df) df),
          phone_conv_rate = ratio_or_zero (count_rows (rdv_phone_row ts_str df) df) (count_rows (called df) df),
          overall_conv_rate =
            of_int (count_rows (rdv_phone_row ts_str df) df + count_rows (rdv_email_row ts_str df) df) /
            of_int (max (count_rows (mailed df) df + count_rows (called df) df
                         - count_rows (\<lambda>r. rdv_email_row ts_str df r \<and> called df r) df) 1)\<rparr>"
  unfolding compute_metrics_def foldl_ensured Let_def
  by (simp add: getitem_ensured bind_err_def smap_row_series series_and_row_series
      ssum_row_series count_rows_def called_def tagged_def mailed_def rdv_phone_row_def rdv_email_row_def)

lemma count_rows_mono: "(\<And>r. P r \<Longrightarrow> Q r) \<Longrightarrow> count_rows P df \<le> count_rows Q df"
proof -
  assume imp: "\<And>r. P r \<Longrightarrow> Q r"
  have "length (filter (\<lambda>(l, r). P r) xs) \<le> length (filter (\<lambda>(l, r). Q r) xs)" for xs :: "(nat \<times> row) list"
    by (induction xs) (auto dest: imp)
  then show ?thesis by (simp add: count_rows_def)
qed

lemma count_rows_nonneg: "0 \<le> count_rows P df"
  by (simp add: count_rows_def)

lemma count_rows_le_length: "count_rows P df \<le> int (length (rows df))"
  by (simp add: count_rows_def)

lemma count_rows_disjoint:
  assumes "\<And>r. P r \<Longrightarrow> R r" and "\<And>r. Q r \<Longrightarrow> R r" and "\<And>r. P r \<Longrightarrow> \<not> Q r"
  shows "count_rows P df + count_rows Q df \<le> count_rows R df"
proof -
  have "length (filter (\<lambda>(l, r). P r) xs) + length (filter (\<lambda>(l, r). Q r) xs)
        \<le> length (filter (\<lambda>(l, r). R r) xs)" for xs :: "(nat \<times> row) list"
    using assms by (induction xs) auto
  from this [of "rows df"] show ?thesis unfolding count_rows_def by linarith
qed

lemma count_rows_True: "count_rows (\<lambda>r. True) df = int (length (rows df))"
  by (simp add: count_rows_def)

lemma has_any_tag_mono: "S \<subseteq> T \<Longrightarrow> has_any_tag tags S \<Longrightarrow> has_any_tag tags T"
  by (auto simp: has_any_tag_def list_ex_iff)

lemma has_any_tag_inter: "has_any_tag tags S \<longleftrightarrow> set tags \<inter> S \<noteq> {}"
  by (auto simp: has_any_tag_def list_ex_iff)

lemma vocab_nested:
  "CALL_TAGS_RDV \<subset> CALL_TAGS_PITCHED" "CALL_TAGS_PITCHED \<subset> CALL_TAGS_CONNECTED"
  by (simp_all add: CALL_TAGS_RDV_def CALL_TAGS_PITCHED_def CALL_TAGS_CONNECTED_def psubset_eq
      insert_eq_iff)

lemma ratio_or_zero_bounds:
  "0 \<le> a \<Longrightarrow> a \<le> b \<Longrightarrow> 0 \<le> ratio_or_zero a b \<and> ratio_or_zero a b \<le> 1"
  by (auto simp: ratio_or_zero_def divide_le_eq_1 zero_le_divide_iff)

lemma ratio_or_zero_zero: "ratio_or_zero a 0 = 0"
  by (simp add: ratio_or_zero_def)

lemma mailed_if_status: "cell_of df r status_col = Str s \<Longrightarrow> s \<noteq> [] \<Longrightarrow> mailed df r"
  by (simp add: mailed_def fillna_empty_def)

section \<open>The telephone funnel\<close>

text \<open>
  Claim C6. For every dataset, \<open>compute_metrics\<close> returns, and its counts satisfy
  rdv_phone \<le> calls_pitched \<le> calls_connected \<le> calls_total: the vocabularies are
  nested, RDV inside PITCHED inside CONNECTED, and each of the three tag counts is
  restricted to the rows that have a call timestamp.
\<close>

theorem funnel_chain:
  "\<exists>m. compute_metrics ts_str df = Inr m
      \<and> rdv_phone m \<le> calls_pitched m
      \<and> calls_pitched m \<le> calls_connected m
      \<and> calls_connected m \<le> calls_total m
      \<and> CALL_TAGS_RDV \<subset> CALL_TAGS_PITCHED \<and> CALL_TAGS_PITCHED \<subset> CALL_TAGS_CONNECTED"
proof -
  have a: "count_rows (rdv_phone_row ts_str df) df
           \<le> count_rows (\<lambda>r. tagged ts_str df CALL_TAGS_PITCHED r \<and> called df r) df"
    by (rule count_rows_mono)
       (auto simp: rdv_phone_row_def tagged_def intro: has_any_tag_mono [OF less_imp_le [OF vocab_nested(1)]])
  have b: "count_rows (\<lambda>r. tagged ts_str df CALL_TAGS_PITCHED r \<and> called df r) df
           \<le> count_rows (\<lambda>r. tagged ts_str df CALL_TAGS_CONNECTED r \<and> called df r) df"
    by (rule count_rows_mono)
       (auto simp: tagged_def intro: has_any_tag_mono [OF less_imp_le [OF vocab_nested(2)]])
  have c: "count_rows (\<lambda>r. tagged ts_str df CALL_TAGS_CONNECTED r \<and> called df r) df
           \<le> count_rows (called df) df"
    by (rule count_rows_mono) simp
  show ?thesis
    apply (rule exI [of _ "projr (compute_metrics ts_str df)"])
    apply (simp only: compute_metrics_eq sum.sel)
    using a b c vocab_nested apply simp
    done
qed

section \<open>Rates and counts\<close>

lemma rdv_email_row_mailed: "rdv_email_row ts_str df r \<Longrightarrow> mailed df r"
  by (simp add: rdv_email_row_def mailed_def fillna_empty_def)

lemma rdv_total_le_universe:
  "count_rows (rdv_phone_row ts_str df) df + count_rows (rdv_email_row ts_str df) df
   \<le> count_rows (mailed df) df + count_rows (called df) df
       - count_rows (\<lambda>r. rdv_email_row ts_str df r \<and> called df r) df"
proof -
  have a: "count_rows (rdv_phone_row ts_str df) df
           + count_rows (\<lambda>r. rdv_email_row ts_str df r \<and> called df r) df
           \<le> count_rows (called df) df"
    by (rule count_rows_disjoint) (auto simp: rdv_phone_row_def rdv_email_row_def)
  have b: "count_rows (rdv_email_row ts_str df) df \<le> count_rows (mailed df) df"
    by (rule count_rows_mono) (rule rdv_email_row_mailed)
  from a b show ?thesis by linarith
qed

lemma rdv_total_le_rows:
  "count_rows (rdv_phone_row ts_str df) df + count_rows (rdv_email_row ts_str df) df
   \<le> int (length (rows df))"
proof -
  have "count_rows (rdv_phone_row ts_str df) df + count_rows (rdv_email_row ts_str df) df
        \<le> count_rows (\<lambda>r. True) df"
    by (rule count_rows_disjoint) (auto simp: rdv_email_row_def)
  then show ?thesis by (simp add: count_rows_True)
qed

lemma overall_bounds:
  assumes "0 \<le> t" and "t \<le> u"
  shows "0 \<le> (of_int t :: rat) / of_int (max u 1) \<and> (of_int t :: rat) / of_int (max u 1) \<le> 1"
proof -
  have "t \<le> max u 1" using assms by simp
  moreover have "0 < max u 1" by simp
  ultimately show ?thesis using assms(1)
    by (simp add: divide_le_eq_1 zero_le_divide_iff)
qed

text \<open>
  Claim C2. For every dataset, \<open>compute_metrics\<close> returns a result in which each of the
  eight rates lies between 0 and 1 and is 0 when its denominator is 0 (for
  \<open>overall_conv_rate\<close>, whose denominator is floored at 1: when nobody was mailed or
  called), and each of the nine counts is an integer between 0 and the number of rows.
\<close>

theorem metrics_ranges:
  "\<exists>m. compute_metrics ts_str df = Inr m
     \<and> (0 \<le> connection_rate m \<and> connection_rate m \<le> 1)
     \<and> (0 \<le> pitch_rate m \<and> pitch_rate m \<le> 1)
     \<and> (0 \<le> rdv_phone_rate m \<and> rdv_phone_rate m \<le> 1)
     \<and> (0 \<le> open_rate m \<and> open_rate m \<le> 1)
     \<and> (0 \<le> reply_rate m \<and> reply_rate m \<le> 1)
     \<and> (0 \<le> email_conv_rate m \<and> email_conv_rate m \<le> 1)
     \<and> (0 \<le> phone_conv_rate m \<and> phone_conv_rate m \<le> 1)
     \<and> (0 \<le> overall_conv_rate m \<and> overall_conv_rate m \<le> 1)
     \<and> (calls_total m = 0 \<longrightarrow> connection_rate m = 0 \<and> rdv_phone_rate m = 0 \<and> phone_conv_rate m = 0)
     \<and> (calls_connected m = 0 \<longrightarrow> pitch_rate m = 0)
     \<and> (contacts_email m = 0 \<longrightarrow> open_rate m = 0 \<and> reply_rate m = 0 \<and> email_conv_rate m = 0)
     \<and> (contacts_email m = 0 \<and> calls_total m = 0 \<longrightarrow> overall_conv_rate m = 0)
     \<and> list_all (\<lambda>c. 0 \<le> c \<and> c \<le> int (length (rows df)))
          [calls_total m, calls_connected m, calls_pitched m, rdv_phone m, contacts_email m,
           contacts_opened m, contacts_replied m, rdv_email m, rdv_total m]"
proof -
  let ?called = "count_rows (called df) df"
  let ?conn = "count_rows (\<lambda>r. tagged ts_str df CALL_TAGS_CONNECTED r \<and> called df r) df"
  let ?pitch = "count_rows (\<lambda>r. tagged ts_str df CALL_TAGS_PITCHED r \<and> called df r) df"
  let ?rp = "count_rows (rdv_phone_row ts_str df) df"
  let ?mail = "count_rows (mailed df) df"
  let ?op = "count_rows (\<lambda>r. cell_of df r status_col = Str ''Email opened'') df"
  let ?re = "count_rows (\<lambda>r. cell_of df r status_col = Str ''Email replied'') df"
  let ?em = "count_rows (rdv_email_row ts_str df) df"
  let ?ov = "count_rows (\<lambda>r. rdv_email_row ts_str df r \<and> called df r) df"
  have pc: "?pitch \<le> ?conn"
    by (rule count_rows_mono)
       (auto simp: tagged_def intro: has_any_tag_mono [OF less_imp_le [OF vocab_nested(2)]])
  have cc: "?conn \<le> ?called" by (rule count_rows_mono) simp
  have rc: "?rp \<le> ?called" by (rule count_rows_mono) (simp add: rdv_phone_row_def)
  have om: "?op \<le> ?mail" by (rule count_rows_mono) (simp add: mailed_if_status)
  have rm: "?re \<le> ?mail" by (rule count_rows_mono) (simp add: mailed_if_status)
  have em: "?em \<le> ?mail" by (rule count_rows_mono) (rule rdv_email_row_mailed)
  note nn = count_rows_nonneg
  have r1: "0 \<le> ratio_or_zero ?conn ?called \<and> ratio_or_zero ?conn ?called \<le> 1"
    by (rule ratio_or_zero_bounds [OF nn cc])
  have r2: "0 \<le> ratio_or_zero ?pitch ?conn \<and> ratio_or_zero ?pitch ?conn \<le> 1"
    by (rule ratio_or_zero_bounds [OF nn pc])
  have r3: "0 \<le> ratio_or_zero ?rp ?called \<and> ratio_or_zero ?rp ?called \<le> 1"
    by (rule ratio_or_zero_bounds [OF nn rc])
  have r4: "0 \<le> ratio_or_zero ?op ?mail \<and> ratio_or_zero ?op ?mail \<le> 1"
    by (rule ratio_or_zero_bounds [OF nn om])
  have r5: "0 \<le> ratio_or_zero ?re ?mail \<and> ratio_or_zero ?re ?mail \<le> 1"
    by (rule ratio_or_zero_bounds [OF nn rm])
  have r6: "0 \<le> ratio_or_zero ?em ?mail \<and> ratio_or_zero ?em ?mail \<le> 1"
    by (rule ratio_or_zero_bounds [OF nn em])
  have tot0: "0 \<le> ?rp + ?em" using nn [of "rdv_phone_row ts_str df" df] nn [of "rdv_email_row ts_str df" df] by linarith
  have r7: "0 \<le> (of_int (?rp + ?em) :: rat) / of_int (max (?mail + ?called - ?ov) 1)
            \<and> (of_int (?rp + ?em) :: rat) / of_int (max (?mail + ?called - ?ov) 1) \<le> 1"
    by (rule overall_bounds [OF tot0 rdv_total_le_universe])
  have z: "?mail = 0 \<and> ?called = 0 \<Longrightarrow> ?rp + ?em = 0"
    using rc em nn [of "rdv_phone_row ts_str df" df] nn [of "rdv_email_row ts_str df" df] by linarith
  have r8: "?mail = 0 \<and> ?called = 0 \<longrightarrow>
            (of_int (?rp + ?em) :: rat) / of_int (max (?mail + ?called - ?ov) 1) = 0"
    using z by simp
  have counts: "list_all (\<lambda>c. 0 \<le> c \<and> c \<le> int (length (rows df)))
          [?called, ?conn, ?pitch, ?rp, ?mail, ?op, ?re, ?em, ?rp + ?em]"
    using tot0 rdv_total_le_rows [of ts_str df] by (simp add: nn count_rows_le_length)
  show ?thesis
    apply (rule exI [of _ "projr (compute_metrics ts_str df)"])
    apply (simp only: compute_metrics_eq sum.sel)
    using r1 r2 r3 r4 r5 r6 r7 r8 counts apply (simp add: ratio_or_zero_zero del: of_int_add of_int_diff)
    done
qed

text \<open>A dataset of one row that was neither called nor mailed: every denominator is 0.\<close>

theorem metrics_ranges_witness:
  "\<exists>m. compute_metrics (\<lambda>t. ''2024-01-01 00:00:00'') \<lparr>columns = [campaign_col], tz_aware = {}, rows = [(0, \<lambda>c. NaN)]\<rparr> = Inr m
     \<and> calls_total m = 0 \<and> calls_connected m = 0 \<and> contacts_email m = 0
     \<and> connection_rate m = 0 \<and> rdv_phone_rate m = 0 \<and> phone_conv_rate m = 0
     \<and> pitch_rate m = 0 \<and> open_rate m = 0 \<and> reply_rate m = 0 \<and> email_conv_rate m = 0
     \<and> overall_conv_rate m = 0"
proof -
  let ?df = "\<lparr>columns = [campaign_col], tz_aware = {}, rows = [(0, \<lambda>c. NaN)]\<rparr>"
  let ?ts = "\<lambda>t::int. ''2024-01-01 00:00:00''"
  obtain m where m: "compute_metrics ?ts ?df = Inr m"
    and imp: "calls_total m = 0 \<longrightarrow> connection_rate m = 0 \<and> rdv_phone_rate m = 0 \<and> phone_conv_rate m = 0"
      "calls_connected m = 0 \<longrightarrow> pitch_rate m = 0"
      "contacts_email m = 0 \<longrightarrow> open_rate m = 0 \<and> reply_rate m = 0 \<and> email_conv_rate m = 0"
      "contacts_email m = 0 \<and> calls_total m = 0 \<longrightarrow> overall_conv_rate m = 0"
    using metrics_ranges [of ?ts ?df] by blast
  have z: "calls_total m = 0" "calls_connected m = 0" "contacts_email m = 0"
    using m unfolding compute_metrics_eq
    by (auto simp: count_rows_def called_def mailed_def cell_of_def fillna_empty_def)
  show ?thesis using m z imp by simp
qed

section \<open>Meetings obtained by e-mail\<close>

text \<open>
  Claim C5. For every dataset, \<open>rdv_email\<close> is the number of rows whose lifecycle phase
  is exactly "RDV - Bon contact", whose lead status is exactly "Email replied", and which
  are not both called and tagged with a tag of \<open>CALL_TAGS_RDV\<close> (a column the dataset
  lacks being read as missing). A row with a Meeting tag and no call timestamp is
  therefore still counted.
\<close>

theorem rdv_email_count:
  "\<exists>m. compute_metrics ts_str df = Inr m
     \<and> rdv_email m =
         int (length (filter
           (\<lambda>(l, r). cell_of df r phase_col = Str ''RDV - Bon contact''
                   \<and> cell_of df r status_col = Str ''Email replied''
                   \<and> \<not> (notna (cell_of df r call_col)
                        \<and> set (split_tags ts_str (cell_of df r tags_col)) \<inter> CALL_TAGS_RDV \<noteq> {}))
           (rows df)))"
proof -
  have "count_rows (rdv_email_row ts_str df) df =
         int (length (filter
           (\<lambda>(l, r). cell_of df r phase_col = Str ''RDV - Bon contact''
                   \<and> cell_of df r status_col = Str ''Email replied''
                   \<and> \<not> (notna (cell_of df r call_col)
                        \<and> set (split_tags ts_str (cell_of df r tags_col)) \<inter> CALL_TAGS_RDV \<noteq> {}))
           (rows df)))"
    unfolding count_rows_def rdv_email_row_def rdv_phone_row_def tagged_def called_def has_any_tag_inter
    by (rule arg_cong [where f = "\<lambda>p. int (length (filter p (rows df)))"]) auto
  then show ?thesis
    by (simp add: compute_metrics_eq)
qed

text \<open>
  The case the claim singles out: one row tagged Meeting, never called, that replied and
  is in the RDV phase, counts as a meeting by e-mail and not as one by telephone.
\<close>

theorem rdv_email_counts_uncalled_meeting:
  "\<exists>m. compute_metrics (\<lambda>t. ''2024-01-01 00:00:00'')
         \<lparr>columns = [tags_col, status_col, phase_col], tz_aware = {},
          rows = [(0, (\<lambda>c. NaN)(tags_col := Str ''Meeting'', status_col := Str ''Email replied'',
                                 phase_col := Str ''RDV - Bon contact''))]\<rparr> = Inr m
     \<and> rdv_email m = 1 \<and> rdv_phone m = 0"
proof -
  let ?df = "\<lparr>columns = [tags_col, status_col, phase_col], tz_aware = {},
          rows = [(0, (\<lambda>c. NaN)(tags_col := Str ''Meeting'', status_col := Str ''Email replied'',
                                 phase_col := Str ''RDV - Bon contact''))]\<rparr>"
  let ?ts = "\<lambda>t::int. ''2024-01-01 00:00:00''"
  obtain m where m: "compute_metrics ?ts ?df = Inr m" and e: "rdv_email m =
         int (length (filter
           (\<lambda>(l, r). cell_of ?df r phase_col = Str ''RDV - Bon contact''
                   \<and> cell_of ?df r status_col = Str ''Email replied''
                   \<and> \<not> (notna (cell_of ?df r call_col)
                        \<and> set (split_tags ?ts (cell_of ?df r tags_col)) \<inter> CALL_TAGS_RDV \<noteq> {}))
           (rows ?df)))"
    using rdv_email_count [of ?ts ?df] by blast
  have "rdv_email m = 1"
    unfolding e using col_names_distinct by (auto simp: cell_of_def)
  moreover have "rdv_phone m = 0"
    using m col_names_distinct unfolding compute_metrics_eq
    by (auto simp: count_rows_def rdv_phone_row_def called_def cell_of_def)
  ultimately show ?thesis using m by simp
qed

section \<open>The empty dataset\<close>

text \<open>
  Claim C9. On a dataset of 0 rows, whatever its columns, \<open>compute_metrics\<close> returns the
  result whose counts are all 0 and whose rates are all 0, and
  \<open>compute_call_distribution\<close> returns the empty sequence.
\<close>

theorem empty_dataset:
  assumes "rows df = []"
  shows "compute_metrics ts_str df =
           Inr \<lparr>calls_total = 0, calls_connected = 0, calls_pitched = 0, rdv_phone = 0,
                connection_rate = 0, pitch_rate = 0, rdv_phone_rate = 0,
                contacts_email = 0, contacts_opened = 0, contacts_replied = 0,
                open_rate = 0, reply_rate = 0, rdv_email = 0, rdv_total = 0,
                email_conv_rate = 0, phone_conv_rate = 0, overall_conv_rate = 0\<rparr>
         \<and> compute_call_distribution ts_str df = Inr []"
proof -
  have "count_rows P df = 0" for P
    using assms by (simp add: count_rows_def)
  then have "compute_metrics ts_str df =
           Inr \<lparr>calls_total = 0, calls_connected = 0, calls_pitched = 0, rdv_phone = 0,
                connection_rate = 0, pitch_rate = 0, rdv_phone_rate = 0,
                contacts_email = 0, contacts_opened = 0, contacts_replied = 0,
                open_rate = 0, reply_rate = 0, rdv_email = 0, rdv_total = 0,
                email_conv_rate = 0, phone_conv_rate = 0, overall_conv_rate = 0\<rparr>"
    by (simp add: compute_metrics_eq ratio_or_zero_zero)
  moreover have "compute_call_distribution ts_str df = Inr []"
    using assms by (simp add: compute_call_distribution_def df_empty_def)
  ultimately show ?thesis by simp
qed

text \<open>A dataset with three of the expected columns and no row.\<close>

theorem empty_dataset_witness:
  "rows \<lparr>columns = [call_col, tags_col, status_col], tz_aware = {}, rows = []\<rparr> = []
   \<and> compute_metrics (\<lambda>t. ''2024-01-01 00:00:00'') \<lparr>columns = [call_col, tags_col, status_col], tz_aware = {}, rows = []\<rparr> =
           Inr \<lparr>calls_total = 0, calls_connected = 0, calls_pitched = 0, rdv_phone = 0,
                connection_rate = 0, pitch_rate = 0, rdv_phone_rate = 0,
                contacts_email = 0, contacts_opened = 0, contacts_replied = 0,
                open_rate = 0, reply_rate = 0, rdv_email = 0, rdv_total = 0,
                email_conv_rate = 0, phone_conv_rate = 0, overall_conv_rate = 0\<rparr>
   \<and> compute_call_distribution (\<lambda>t. ''2024-01-01 00:00:00'') \<lparr>columns = [call_col, tags_col, status_col], tz_aware = {}, rows = []\<rparr> = Inr []"
  using empty_dataset [of "\<lparr>columns = [call_col, tags_col, status_col], tz_aware = {}, rows = []\<rparr>" "\<lambda>t. ''2024-01-01 00:00:00''"]
  by simp


section \<open>A missing column in the distribution\<close>

text \<open>
  Claim C1 does not hold of the code. \<open>compute_metrics\<close> adds the columns it needs, but
  \<open>compute_call_distribution\<close> reads the call timestamp column without that guard: on a
  non-empty dataset from which the column was removed it raises KeyError.
\<close>

theorem distribution_raises_without_timestamp_column:
  "\<forall>ts_str. compute_call_distribution ts_str no_timestamp_example = Inl KeyError"
  using col_names_distinct
  by (simp add: compute_call_distribution_def df_empty_def getitem_def bind_err_def
      no_timestamp_example_def)

section \<open>Distribution rates above 1\<close>

lemma split_tags_Pitch: "split_tags ts_str (Str ''Pitch'') = [''Pitch'']"
  by code_simp

lemma stray_tag_distribution:
  "compute_call_distribution ts_str stray_tag_example = Inr [\<lparr>tag = ''Pitch'', count = 2, rate = 2\<rparr>]"
proof -
  have ne: "call_col \<noteq> tags_col" "tags_col \<noteq> call_col"
    using col_names_distinct by auto
  show ?thesis
    by (simp add: compute_call_distribution_def df_empty_def getitem_def bind_err_def
        stray_tag_example_def smap_def ssum_def ne split_tags_Pitch bump_def Let_def)
qed

text \<open>
  Claim C10. There is a dataset with a called contact for which \<open>compute_call_distribution\<close>
  returns a row whose rate exceeds 1: a tag is counted on every row that carries it, called
  or not, and divided by the number of called rows.
\<close>

theorem distribution_rate_can_exceed_one:
  "\<exists>df. (\<exists>(l, r)\<in>set (rows df). notna (cell_of df r call_col))
      \<and> (\<exists>dist. compute_call_distribution ts_str df = Inr dist \<and> (\<exists>d\<in>set dist. 1 < rate d))"
proof -
  have "\<exists>(l, r)\<in>set (rows stray_tag_example). notna (cell_of stray_tag_example r call_col)"
    by (simp add: stray_tag_example_def cell_of_def)
  moreover have "\<exists>dist. compute_call_distribution ts_str stray_tag_example = Inr dist
      \<and> (\<exists>d\<in>set dist. 1 < rate d)"
    by (simp add: stray_tag_distribution)
  ultimately show ?thesis by blast
qed


section \<open>The engines on a worked example\<close>

lemma split_tags_examples:
  "split_tags ts_str (Str ''Meeting, Pitch'') = [''Meeting'', ''Pitch'']"
  "split_tags ts_str (Str ''Standard'') = [''Standard'']"
  "split_tags ts_str (Str '' a ;; b|,c ; '') = [''a'', ''b'', ''c'']"
  "split_tags ts_str NaN = []"
  "split_tags ts_str NaT = [''NaT'']"
  "split_tags ts_str (Str (''Meeting'' @ [CHR 0xC2, CHR 0xA0])) = [''Meeting'']"
  "split_tags ts_str (Str ([CHR 0xE2, CHR 0x80, CHR 0x83] @ ''No answer'' @ [CHR 0xE3, CHR 0x80, CHR 0x80, CHR 0x0A])) = [''No answer'']"
  by code_simp+

lemma sort_example:
  "sort_key (\<lambda>(t, n). (- n, t)) [(''Meeting'', 1::int), (''Pitch'', 2), (''Standard'', 1)]
   = [(''Pitch'', 2), (''Meeting'', 1), (''Standard'', 1)]"
  by code_simp

lemma scenario_b_metrics:
  "\<exists>m. compute_metrics ts_str scenario_b = Inr m
     \<and> calls_total m = 2 \<and> calls_connected m = 2 \<and> calls_pitched m = 1 \<and> rdv_phone m = 1"
proof -
  have ne: "call_col \<noteq> tags_col" "tags_col \<noteq> call_col"
    using col_names_distinct by auto
  have c: "count_rows (called scenario_b) scenario_b = 2"
    "count_rows (\<lambda>r. tagged ts_str scenario_b CALL_TAGS_CONNECTED r \<and> called scenario_b r) scenario_b = 2"
    "count_rows (\<lambda>r. tagged ts_str scenario_b CALL_TAGS_PITCHED r \<and> called scenario_b r) scenario_b = 1"
    "count_rows (rdv_phone_row ts_str scenario_b) scenario_b = 1"
    by (simp_all add: count_rows_def called_def tagged_def rdv_phone_row_def cell_of_def scenario_b_def ne
        split_tags_examples has_any_tag_def CALL_TAGS_CONNECTED_def CALL_TAGS_PITCHED_def CALL_TAGS_RDV_def)
  show ?thesis
    by (rule exI [of _ "projr (compute_metrics ts_str scenario_b)"])
       (simp only: compute_metrics_eq sum.sel c metrics.simps simp_thms)
qed

lemma scenario_b_distribution:
  "compute_call_distribution ts_str scenario_b =
     Inr [\<lparr>tag = ''Pitch'', count = 2, rate = 1\<rparr>,
          \<lparr>tag = ''Meeting'', count = 1, rate = 1 / 2\<rparr>,
          \<lparr>tag = ''Standard'', count = 1, rate = 1 / 2\<rparr>]"
proof -
  have ne: "call_col \<noteq> tags_col" "tags_col \<noteq> call_col"
    using col_names_distinct by auto
  show ?thesis
    by (simp add: compute_call_distribution_def df_empty_def getitem_def bind_err_def
        scenario_b_def smap_def ssum_def ne split_tags_examples split_tags_Pitch bump_def sort_example Let_def)
qed

text \<open>
  On scenario B the metrics engine counts 2 calls, 2 connected, 1 pitched and 1 meeting by
  telephone, and the distribution engine returns Pitch with count 2, then Meeting and
  Standard with count 1 each, every rate being the count over the 2 calls.
\<close>

theorem scenario_b_results:
  "\<forall>ts_str.
     (\<exists>m. compute_metrics ts_str scenario_b = Inr m
        \<and> calls_total m = 2 \<and> calls_connected m = 2 \<and> calls_pitched m = 1 \<and> rdv_phone m = 1)
     \<and> compute_call_distribution ts_str scenario_b =
         Inr [\<lparr>tag = ''Pitch'', count = 2, rate = 1\<rparr>,
              \<lparr>tag = ''Meeting'', count = 1, rate = 1 / 2\<rparr>,
              \<lparr>tag = ''Standard'', count = 1, rate = 1 / 2\<rparr>]"
  using scenario_b_metrics scenario_b_distribution by simp

text \<open>
  For every dataset, the total of meetings that \<open>compute_metrics\<close> returns is the sum of
  the meetings by telephone and the meetings by e-mail.
\<close>

theorem rdv_total_is_sum:
  "\<exists>m. compute_metrics ts_str df = Inr m \<and> rdv_total m = rdv_phone m + rdv_email m"
  by (simp add: compute_metrics_eq)


section \<open>Selecting rows\<close>

lemma date_cols_distinct: "call_col \<noteq> activity_col"
  by (simp add: call_col_def activity_col_def)

lemma bind_err_Inr: "bind_err (Inr v) f = f v"
  by (simp add: bind_err_def)

lemma bind_err_Inl: "bind_err (Inl e) f = Inl e"
  by (simp add: bind_err_def)

lemma take_true_map: "take_true rs (map p rs) = Inr (filter p rs)"
  by (induction rs) auto

lemma take_true_sub: "take_true rs ms = Inr out \<Longrightarrow> set out \<subseteq> set rs"
proof (induction rs ms arbitrary: out rule: take_true.induct)
  case (1 rs)
  then show ?case by simp
next
  case (2 m ms)
  then show ?case by (simp split: if_splits)
next
  case (3 r rs m ms)
  then show ?case by (auto split: sum.splits if_splits)
qed

lemma reindex_key_row_series:
  "reindex_key (row_series q rws) (map fst rws) = Inr (map (\<lambda>(l, r). q r) rws)"
  by (simp add: reindex_key_def index_row_series) (simp add: row_series_def case_prod_unfold)

lemma getitem_bool_row_series:
  "getitem_bool df (row_series q (rows df)) = Inr (keep_rows q df)"
proof (cases "list_all (\<lambda>v. v) (map (\<lambda>(l, r). q r) (rows df))")
  case True
  then have "filter (\<lambda>(l, r). q r) (rows df) = rows df"
    by (simp add: list_all_iff case_prod_unfold)
  then have "keep_rows q df = df"
    by (simp add: keep_rows_def)
  with True show ?thesis
    by (simp add: getitem_bool_def index_def reindex_key_row_series bind_err_Inr)
next
  case False
  then show ?thesis
    by (simp add: getitem_bool_def index_def reindex_key_row_series bind_err_Inr take_true_map
        keep_rows_def)
qed

lemma getitem_bool_sub:
  assumes "getitem_bool d key = Inr d'"
  shows "columns d' = columns d \<and> tz_aware d' = tz_aware d \<and> set (rows d') \<subseteq> set (rows d)"
proof (cases "reindex_key key (index d)")
  case (Inl e)
  with assms show ?thesis by (simp add: getitem_bool_def bind_err_Inl)
next
  case (Inr vals)
  show ?thesis
  proof (cases "list_all (\<lambda>v. v) vals")
    case True
    with assms Inr show ?thesis by (simp add: getitem_bool_def bind_err_Inr)
  next
    case False
    show ?thesis
    proof (cases "take_true (rows d) vals")
      case (Inl e)
      with assms Inr False show ?thesis by (simp add: getitem_bool_def bind_err_Inr bind_err_Inl)
    next
      case taken: (Inr rs)
      from take_true_sub [OF taken] assms Inr False taken show ?thesis
        by (auto simp: getitem_bool_def bind_err_Inr)
    qed
  qed
qed

section \<open>The conversion of the date columns\<close>

lemma to_datetime_length: "length (snd (to_datetime conv aware cs)) = length cs"
  by (auto simp: to_datetime_def)

lemma is_datetime_coerced: "is_datetime (coerced v)"
  by (simp add: is_datetime_def coerced_def split: option.splits)

lemma to_datetime_is_datetime: "list_all is_datetime (snd (to_datetime conv aware cs))"
proof (cases "list_ex is_text cs")
  case True
  have nat: "is_datetime NaT"
    by (simp add: is_datetime_def)
  have "list_all is_datetime (map coerced xs @ replicate n NaT)" for xs n
    by (auto simp: list_all_iff is_datetime_coerced nat)
  then have tk: "list_all is_datetime (take k (map coerced xs @ replicate n NaT))" for xs n k
    unfolding list_all_iff using in_set_takeD by fastforce
  show ?thesis
    unfolding to_datetime_def if_P [OF True] snd_conv by (rule tk)
next
  case False
  then have "\<forall>c\<in>set cs. is_datetime (if c = NaN then NaT else c)"
    by (auto simp: list_ex_iff is_text_def is_datetime_def split: cell.splits)
  then have "list_all is_datetime (map (\<lambda>c. if c = NaN then NaT else c) cs)"
    unfolding list_all_iff by auto
  then show ?thesis
    unfolding to_datetime_def if_not_P [OF False] snd_conv .
qed

lemma to_datetime_fix: "list_all is_datetime cs \<Longrightarrow> to_datetime conv aware cs = (aware, cs)"
proof -
  assume a: "list_all is_datetime cs"
  then have "\<not> list_ex is_text cs"
    by (auto simp: list_all_iff list_ex_iff is_text_def is_datetime_def split: cell.splits)
  moreover have "map (\<lambda>c. if c = NaN then NaT else c) cs = cs"
    using a by (intro map_idI) (auto simp: list_all_iff is_datetime_def)
  ultimately show ?thesis by (simp add: to_datetime_def)
qed

lemma to_datetime_col_columns: "columns (to_datetime_col conv d col) = columns d"
  by (simp add: to_datetime_col_def split: prod.splits)

lemma to_datetime_col_index: "index (to_datetime_col conv d col) = index d"
proof -
  have "map fst (map (\<lambda>((l, r), c). (l, r(col := c))) (zip rws cs)) = map fst rws"
    if "length cs = length rws" for rws :: "(nat \<times> row) list" and cs
    using that by (induction cs rws rule: list_induct2) auto
  from this [of "snd (to_datetime conv (col \<in> tz_aware d) (map (\<lambda>(l, r). r col) (rows d)))" "rows d"]
  show ?thesis
    by (simp add: to_datetime_col_def index_def to_datetime_length split: prod.splits)
       (metis snd_conv)
qed

lemma column_cells_to_datetime_col:
  "column_cells (to_datetime_col conv d col) c =
     (if c = col \<and> col \<in> set (columns d)
      then snd (to_datetime conv (col \<in> tz_aware d) (column_cells d col))
      else column_cells d c)"
proof -
  have same: "map (\<lambda>(l, r). r col) (map (\<lambda>((l, r), c). (l, r(col := c))) (zip rws cs)) = cs"
    if "length cs = length rws" for rws :: "(nat \<times> row) list" and cs
    using that by (induction cs rws rule: list_induct2) auto
  have other: "map (\<lambda>(l, r). r c) (map (\<lambda>((l, r), c). (l, r(col := c))) (zip rws cs))
               = map (\<lambda>(l, r). r c) rws"
    if "length cs = length rws" "c \<noteq> col" for rws :: "(nat \<times> row) list" and cs
    using that by (induction cs rws rule: list_induct2) auto
  let ?cs = "snd (to_datetime conv (col \<in> tz_aware d) (map (\<lambda>(l, r). r col) (rows d)))"
  have len: "length ?cs = length (rows d)"
    by (simp add: to_datetime_length)
  show ?thesis
    using same [OF len] other [OF len]
    by (auto simp: to_datetime_col_def column_cells_def split: prod.splits)
qed

lemma tz_aware_to_datetime_col:
  "c \<noteq> col \<Longrightarrow> (c \<in> tz_aware (to_datetime_col conv d col)) = (c \<in> tz_aware d)"
  by (auto simp: to_datetime_col_def split: prod.splits)

lemma to_datetime_col_fix:
  assumes "datetime_column d col"
  shows "to_datetime_col conv d col = d"
proof (cases "col \<in> set (columns d)")
  case False
  then show ?thesis by (simp add: to_datetime_col_def)
next
  case True
  with assms have dt: "list_all is_datetime (map (\<lambda>(l, r). r col) (rows d))"
    by (simp add: datetime_column_def column_cells_def)
  have rws: "map (\<lambda>((l, r), c). (l, r(col := c))) (zip rws (map (\<lambda>(l, r). r col) rws)) = rws"
    for rws :: "(nat \<times> row) list"
    by (induction rws) auto
  have tz: "(if col \<in> tz_aware d then insert col (tz_aware d) else tz_aware d - {col}) = tz_aware d"
    by auto
  show ?thesis
    using True by (simp add: to_datetime_col_def to_datetime_fix [OF dt] rws tz)
qed

lemma with_parsed_dates_fix: "datetime_columns d \<Longrightarrow> with_parsed_dates conv d = d"
  by (simp add: with_parsed_dates_def datetime_columns_def to_datetime_col_fix)

lemma with_parsed_dates_shape:
  "columns (with_parsed_dates conv df) = columns df"
  "index (with_parsed_dates conv df) = index df"
  "length (rows (with_parsed_dates conv df)) = length (rows df)"
proof -
  show c: "columns (with_parsed_dates conv df) = columns df"
    by (simp add: with_parsed_dates_def to_datetime_col_columns)
  show i: "index (with_parsed_dates conv df) = index df"
    by (simp add: with_parsed_dates_def to_datetime_col_index)
  from arg_cong [OF i, of length]
  show "length (rows (with_parsed_dates conv df)) = length (rows df)"
    by (simp add: index_def)
qed

lemma datetime_columns_with_parsed_dates: "datetime_columns (with_parsed_dates conv df)"
  using to_datetime_is_datetime date_cols_distinct
  by (simp add: datetime_columns_def datetime_column_def with_parsed_dates_def
      column_cells_to_datetime_col to_datetime_col_columns)

lemma datetime_columns_sub:
  assumes "datetime_columns d" and "columns d' = columns d" and "set (rows d') \<subseteq> set (rows d)"
  shows "datetime_columns d'"
  using assms
  by (auto simp: datetime_columns_def datetime_column_def column_cells_def list_all_iff)


section \<open>The date filter and the categorical filters\<close>

lemma date_mask_present:
  "col \<in> set (columns d) \<Longrightarrow> (col \<in> tz_aware d) = ts_aware b \<Longrightarrow>
   date_mask cmp d col b = Inr (row_series (\<lambda>r. notna (r col) \<and> cmp (r col) b) (rows d))"
  by (simp add: date_mask_def getitem_row_series bind_err_def smap_row_series series_and_row_series)

lemma date_mask_mismatch:
  "col \<in> set (columns d) \<Longrightarrow> (col \<in> tz_aware d) \<noteq> ts_aware b \<Longrightarrow>
   date_mask cmp d col b = Inl TypeError"
  by (simp add: date_mask_def getitem_row_series bind_err_def)

lemma date_mask_absent:
  "col \<notin> set (columns d) \<Longrightarrow> date_mask cmp d col b = Inr (series_false (length (rows d)))"
  by (simp add: date_mask_def)

lemma cmp_notna: "cmp = cell_ge \<or> cmp = cell_le \<Longrightarrow> (notna c \<and> cmp c b) = cmp c b"
  by (auto simp: cell_ge_def cell_le_def split: cell.splits)

lemma cmp_NaN: "cmp = cell_ge \<or> cmp = cell_le \<Longrightarrow> cmp NaN b = False"
  by (auto simp: cell_ge_def cell_le_def)

lemma series_false_default:
  assumes "map fst rws = [0..<length rws]"
  shows "series_false (length rws) = row_series (\<lambda>r. False) rws"
proof -
  have "row_series (\<lambda>r. False) rws = map (\<lambda>i. (i, False)) (map fst rws)"
    by (simp add: row_series_def case_prod_unfold)
  also have "\<dots> = series_false (length rws)"
    unfolding assms by (simp add: series_false_def)
  finally show ?thesis ..
qed

lemma date_mask_rows:
  assumes "col \<in> set (columns d) \<or> index d = [0..<length (rows d)]"
    and "comparable_column d col b"
    and "cmp = cell_ge \<or> cmp = cell_le"
  shows "date_mask cmp d col b = Inr (row_series (\<lambda>r. cmp (cell_of d r col) b) (rows d))"
proof (cases "col \<in> set (columns d)")
  case True
  with assms(2) have "(col \<in> tz_aware d) = ts_aware b"
    by (simp add: comparable_column_def)
  with True show ?thesis
    by (simp add: date_mask_present cmp_notna [OF assms(3)] cell_of_def)
next
  case False
  with assms(1) have "map fst (rows d) = [0..<length (rows d)]"
    by (simp add: index_def)
  from series_false_default [OF this] False show ?thesis
    by (simp add: date_mask_absent cell_of_def cmp_NaN [OF assms(3)])
qed

lemma ssum_zero_iff: "ssum (row_series p rws) = 0 \<longleftrightarrow> \<not> list_ex (\<lambda>(l, r). p r) rws"
  by (auto simp: ssum_row_series list_ex_iff filter_empty_conv)

lemma keep_rows_or_none:
  "keep_rows (\<lambda>r. P r \<or> \<not> list_ex (\<lambda>(l, r). P r) (rows df)) df = keep_or_all P df"
proof (cases "list_ex (\<lambda>(l, r). P r) (rows df)")
  case True
  then show ?thesis by (simp add: keep_rows_def keep_or_all_def)
next
  case False
  then show ?thesis by (simp add: keep_rows_def keep_or_all_def)
qed

lemma date_filter_default:
  assumes "(call_col \<in> set (columns d) \<and> activity_col \<in> set (columns d)) \<or> index d = [0..<length (rows d)]"
    and "comparable d b"
    and "cmp = cell_ge \<or> cmp = cell_le"
  shows "date_filter cmp d b = Inr (keep_or_all (bound_ok cmp d b) d)"
proof -
  have c: "call_col \<in> set (columns d) \<or> index d = [0..<length (rows d)]"
    and a: "activity_col \<in> set (columns d) \<or> index d = [0..<length (rows d)]"
    using assms(1) by auto
  have cc: "comparable_column d call_col b" and ca: "comparable_column d activity_col b"
    using assms(2) by (simp_all add: comparable_def)
  have "date_filter cmp d b =
        Inr (keep_rows (\<lambda>r. bound_ok cmp d b r
               \<or> \<not> list_ex (\<lambda>(l, r). bound_ok cmp d b r) (rows d)) d)"
    by (simp add: date_filter_def date_mask_rows [OF c cc assms(3)] date_mask_rows [OF a ca assms(3)]
        bind_err_Inr series_or_row_series smap_row_series ssum_zero_iff getitem_bool_row_series
        Let_def bound_ok_def)
  then show ?thesis
    by (simp only: keep_rows_or_none)
qed

lemma series_or_false_false: "series_or (series_false n) (series_false n) = series_false n"
  by (simp add: series_or_def align_op_def series_false_def zip_map_map comp_def zip_same_conv_map)

lemma ssum_series_false: "ssum (series_false n) = 0"
  by (simp add: ssum_def series_false_def filter_map comp_def)

lemma date_filter_neither:
  assumes "call_col \<notin> set (columns d)" "activity_col \<notin> set (columns d)"
  shows "date_filter cmp d b =
           (if set (index d) \<subseteq> {..<length (rows d)} then Inr d else Inl IndexingError)"
proof -
  let ?n = "length (rows d)"
  let ?key = "map (\<lambda>i. (i, True)) [0..<?n]"
  have key: "smap (\<lambda>v. v \<or> ssum (series_false ?n) = 0) (series_false ?n) = ?key"
    unfolding ssum_series_false by (simp add: smap_def series_false_def)
  have idx: "map fst ?key = [0..<?n]" and vals: "map snd ?key = replicate ?n True"
    by (simp_all add: comp_def map_replicate_const)
  have at: "list_all (\<lambda>v. v) (values_at ?key l)" for l
    by (auto simp: values_at_def list_all_iff)
  have all: "list_all (\<lambda>v. v) (concat (map (values_at ?key) ls))" for ls
    using at by (induction ls) simp_all
  have "reindex_key ?key (index d) =
          (if [0..<?n] = index d then Inr (replicate ?n True)
           else if set (index d) \<subseteq> {..<?n} then Inr (concat (map (values_at ?key) (index d)))
           else Inl IndexingError)"
    unfolding reindex_key_def idx vals by (simp add: lessThan_atLeast0)
  moreover have "[0..<?n] = index d \<Longrightarrow> set (index d) \<subseteq> {..<?n}"
    by (metis set_upt subset_refl lessThan_atLeast0)
  ultimately have "getitem_bool d ?key = (if set (index d) \<subseteq> {..<?n} then Inr d else Inl IndexingError)"
    using all [of "index d"]
    by (auto simp: getitem_bool_def bind_err_Inr bind_err_Inl list_all_iff)
  then show ?thesis
    using assms by (simp add: date_filter_def date_mask_absent bind_err_def series_or_false_false key Let_def)
qed

lemma filter_if_possible_cat: "filter_if_possible d col vals = Inr (cat_filter col vals d)"
  by (simp add: filter_if_possible_def getitem_row_series bind_err_def smap_row_series
      getitem_bool_row_series cat_filter_def split: option.splits)

lemma apply_filters_eq:
  "apply_filters conv df crit =
     bind_err (date_step cell_ge (start_date crit) (with_parsed_dates conv df)) (\<lambda>d.
     bind_err (date_step cell_le (end_date crit) d) (\<lambda>d. Inr (cat_filters crit d)))"
  unfolding apply_filters_def with_parsed_dates_def [symmetric] Let_def filter_if_possible_cat
    date_step_def cat_filters_def
  by (simp add: bind_err_def)

lemma cat_filter_None: "cat_filter col None d = d"
  by (simp add: cat_filter_def)

lemma date_step_None: "date_step cmp None d = Inr d"
  by (simp add: date_step_def)

lemma date_filter_sub:
  assumes "date_filter cmp d b = Inr d'"
  shows "columns d' = columns d \<and> tz_aware d' = tz_aware d \<and> set (rows d') \<subseteq> set (rows d)"
proof (cases "date_mask cmp d call_col b")
  case (Inl e)
  with assms show ?thesis by (simp add: date_filter_def bind_err_Inl)
next
  case mc: (Inr mc)
  show ?thesis
  proof (cases "date_mask cmp d activity_col b")
    case (Inl e)
    with assms mc show ?thesis by (simp add: date_filter_def bind_err_Inl bind_err_Inr)
  next
    case me: (Inr me)
    have "date_filter cmp d b
          = getitem_bool d (smap (\<lambda>v. v \<or> ssum (series_or mc me) = 0) (series_or mc me))"
      by (simp add: date_filter_def mc me bind_err_Inr Let_def)
    with assms show ?thesis by (simp add: getitem_bool_sub)
  qed
qed

lemma date_step_sub:
  "date_step cmp bound d = Inr d' \<Longrightarrow>
   columns d' = columns d \<and> tz_aware d' = tz_aware d \<and> set (rows d') \<subseteq> set (rows d)"
  by (cases bound) (auto simp: date_step_def dest: date_filter_sub)

lemma cat_filter_sub:
  "columns (cat_filter col vals d) = columns d \<and> set (rows (cat_filter col vals d)) \<subseteq> set (rows d)"
  by (auto simp: cat_filter_def keep_rows_def split: option.splits)

lemma datetime_columns_date_step:
  "datetime_columns d \<Longrightarrow> date_step cmp bound d = Inr d' \<Longrightarrow> datetime_columns d'"
  using date_step_sub datetime_columns_sub by blast

lemma datetime_columns_cat_filter: "datetime_columns d \<Longrightarrow> datetime_columns (cat_filter col vals d)"
  using cat_filter_sub datetime_columns_sub by blast

section \<open>The order in which the filters compose\<close>

lemma single_start:
  "apply_filters conv d (no_criteria\<lparr>start_date := s\<rparr>) = date_step cell_ge s (with_parsed_dates conv d)"
  by (cases "date_step cell_ge s (with_parsed_dates conv d)")
     (simp_all add: apply_filters_eq bind_err_def no_criteria_def date_step_def cat_filters_def cat_filter_None)

lemma single_end:
  "apply_filters conv d (no_criteria\<lparr>end_date := e\<rparr>) = date_step cell_le e (with_parsed_dates conv d)"
  by (cases "date_step cell_le e (with_parsed_dates conv d)")
     (simp_all add: apply_filters_eq bind_err_def no_criteria_def date_step_def cat_filters_def cat_filter_None)

lemma single_cat:
  "apply_filters conv d (no_criteria\<lparr>campaigns := v\<rparr>) = Inr (cat_filter campaign_col v (with_parsed_dates conv d))"
  "apply_filters conv d (no_criteria\<lparr>titles := v\<rparr>) = Inr (cat_filter title_col v (with_parsed_dates conv d))"
  "apply_filters conv d (no_criteria\<lparr>sectors := v\<rparr>) = Inr (cat_filter sector_col v (with_parsed_dates conv d))"
  "apply_filters conv d (no_criteria\<lparr>sizes := v\<rparr>) = Inr (cat_filter size_col v (with_parsed_dates conv d))"
  "apply_filters conv d (no_criteria\<lparr>locations := v\<rparr>) = Inr (cat_filter location_col v (with_parsed_dates conv d))"
  by (simp_all add: apply_filters_eq bind_err_def no_criteria_def date_step_def cat_filters_def cat_filter_None)

text \<open>
  Claim C3, as amended. For every dataset and every criteria, \<open>apply_filters\<close> equals
  the engine run once per criterion, each run on the output of the previous one, in the
  order start date, end date, campaign, job title, sector, company size, location. A run
  that raises ends the chain with its error.
\<close>

theorem filters_compose_in_code_order:
  "apply_filters conv df crit = code_order conv df crit"
proof (cases "date_step cell_ge (start_date crit) (with_parsed_dates conv df)")
  case (Inl e)
  have lhs: "apply_filters conv df crit = Inl e"
    using Inl by (simp add: apply_filters_eq bind_err_def)
  have rhs: "code_order conv df crit = Inl e"
    unfolding code_order_def single_start Inl bind_err_Inl ..
  show ?thesis by (simp only: lhs rhs)
next
  case (Inr d1)
  then have p1: "datetime_columns d1"
    using datetime_columns_date_step [OF datetime_columns_with_parsed_dates] by blast
  show ?thesis
  proof (cases "date_step cell_le (end_date crit) d1")
    case (Inl e)
    have lhs: "apply_filters conv df crit = Inl e"
      using Inr Inl by (simp add: apply_filters_eq bind_err_def)
    have rhs: "code_order conv df crit = Inl e"
      unfolding code_order_def single_start single_end Inr bind_err_Inr with_parsed_dates_fix [OF p1]
        Inl bind_err_Inl ..
    show ?thesis by (simp only: lhs rhs)
  next
    case d2: (Inr d2)
    then have p2: "datetime_columns d2"
      using datetime_columns_date_step [OF p1] by blast
    let ?c1 = "cat_filter campaign_col (campaigns crit) d2"
    let ?c2 = "cat_filter title_col (titles crit) ?c1"
    let ?c3 = "cat_filter sector_col (sectors crit) ?c2"
    let ?c4 = "cat_filter size_col (sizes crit) ?c3"
    have q1: "with_parsed_dates conv ?c1 = ?c1"
      by (intro with_parsed_dates_fix datetime_columns_cat_filter p2)
    have q2: "with_parsed_dates conv ?c2 = ?c2"
      by (intro with_parsed_dates_fix datetime_columns_cat_filter p2)
    have q3: "with_parsed_dates conv ?c3 = ?c3"
      by (intro with_parsed_dates_fix datetime_columns_cat_filter p2)
    have q4: "with_parsed_dates conv ?c4 = ?c4"
      by (intro with_parsed_dates_fix datetime_columns_cat_filter p2)
    have lhs: "apply_filters conv df crit = Inr (cat_filters crit d2)"
      using Inr d2 by (simp add: apply_filters_eq bind_err_def)
    have rhs: "code_order conv df crit = Inr (cat_filters crit d2)"
      unfolding code_order_def single_start single_end single_cat Inr bind_err_Inr
        with_parsed_dates_fix [OF p1] d2 with_parsed_dates_fix [OF p2] q1 q2 q3 q4
      by (simp add: cat_filters_def)
    show ?thesis by (simp only: lhs rhs)
  qed
qed


lemma col_facts:
  "call_col \<noteq> campaign_col" "campaign_col \<noteq> call_col"
  "activity_col \<noteq> campaign_col" "campaign_col \<noteq> activity_col"
  "activity_col \<noteq> call_col" "call_col \<noteq> activity_col"
  "call_col \<noteq> tags_col" "tags_col \<noteq> call_col"
  "activity_col \<noteq> tags_col" "tags_col \<noteq> activity_col"
  by (simp_all add: call_col_def campaign_col_def activity_col_def tags_col_def)

lemma examples_datetime:
  "datetime_columns order_example" "datetime_columns undated_example"
  "datetime_columns early_call_example"
  by (simp_all add: datetime_columns_def datetime_column_def column_cells_def is_datetime_def
      order_example_def undated_example_def early_call_example_def col_facts)

lemma order_criteria_sel:
  "campaigns order_criteria = Some [''B'']" "titles order_criteria = None"
  "sectors order_criteria = None" "sizes order_criteria = None" "locations order_criteria = None"
  "start_date order_criteria = Some (Timestamp False 10)" "end_date order_criteria = None"
  by (simp_all add: order_criteria_def no_criteria_def)

lemma order_example_step:
  "date_step cell_ge (Some (Timestamp False 10)) order_example
     = Inr (keep_or_all (bound_ok cell_ge order_example (Timestamp False 10)) order_example)"
proof -
  have "(call_col \<in> set (columns order_example) \<and> activity_col \<in> set (columns order_example))
        \<or> index order_example = [0..<length (rows order_example)]"
    by (simp add: order_example_def index_def upt_rec)
  moreover have "comparable order_example (Timestamp False 10)"
    by (simp add: comparable_def comparable_column_def order_example_def)
  ultimately show ?thesis
    by (simp add: date_step_def date_filter_default)
qed

lemma order_example_kept:
  "keep_or_all (bound_ok cell_ge order_example (Timestamp False 10)) order_example
     = order_example\<lparr>rows := [(0, (\<lambda>c. NaN)(call_col := Ts 20, campaign_col := Str ''A''))]\<rparr>"
  by (simp add: keep_or_all_def keep_rows_def bound_ok_def cell_of_def cell_ge_def
      order_example_def col_facts)

lemma order_example_code:
  "\<exists>d. apply_filters conv order_example order_criteria = Inr d \<and> map fst (rows d) = []"
proof -
  let ?k = "order_example\<lparr>rows := [(0, (\<lambda>c. NaN)(call_col := Ts 20, campaign_col := Str ''A''))]\<rparr>"
  have out: "apply_filters conv order_example order_criteria = Inr (cat_filters order_criteria ?k)"
    unfolding apply_filters_eq order_criteria_sel with_parsed_dates_fix [OF examples_datetime(1)]
      order_example_step order_example_kept bind_err_Inr date_step_None ..
  have "map fst (rows (cat_filters order_criteria ?k)) = []"
    by (simp add: cat_filters_def order_criteria_sel cat_filter_None)
       (simp add: cat_filter_def keep_rows_def order_example_def isin_def fillna_empty_def col_facts)
  with out show ?thesis by simp
qed

lemma order_example_spec:
  "\<exists>d. spec_order conv order_example order_criteria = Inr d \<and> map fst (rows d) = [1]"
proof -
  let ?c = "cat_filter campaign_col (Some [''B'']) order_example"
  have pc: "datetime_columns ?c"
    by (intro datetime_columns_cat_filter examples_datetime)
  have c_eq: "?c = order_example\<lparr>rows := [(1, (\<lambda>c. NaN)(call_col := Ts 5, campaign_col := Str ''B''))]\<rparr>"
    by (simp add: cat_filter_def keep_rows_def order_example_def isin_def fillna_empty_def col_facts)
  have present: "call_col \<in> set (columns ?c)" "activity_col \<notin> set (columns ?c)"
    "(call_col \<in> tz_aware ?c) = ts_aware (Timestamp False 10)"
    unfolding c_eq by (simp_all add: order_example_def col_facts)
  have mc: "date_mask cell_ge ?c call_col (Timestamp False 10) = Inr [(1, False)]"
    unfolding date_mask_present [OF present(1,3)]
    unfolding c_eq by (simp add: row_series_def cell_ge_def)
  have me: "date_mask cell_ge ?c activity_col (Timestamp False 10) = Inr [(0, False)]"
    unfolding date_mask_absent [OF present(2)]
    unfolding c_eq by (simp add: series_false_def)
  have either: "series_or [(1, False)] [(0, False)] = [(1, False), (0, False)]"
    by (simp add: series_or_def align_op_def values_at_def)
  have key: "smap (\<lambda>v. v \<or> ssum [(1, False), (0, False)] = 0) [(1, False), (0, False)]
               = [(1, True), (0, True)]"
    by (simp add: smap_def ssum_def)
  have idx: "index ?c = [1]"
    unfolding c_eq by (simp add: index_def)
  have sel: "getitem_bool ?c [(1, True), (0, True)] = Inr ?c"
    by (simp add: getitem_bool_def idx reindex_key_def values_at_def bind_err_Inr)
  have step: "date_step cell_ge (Some (Timestamp False 10)) ?c = Inr ?c"
    by (simp only: date_step_def option.simps date_filter_def mc me bind_err_Inr either key sel Let_def)
  have "spec_order conv order_example order_criteria = Inr ?c"
    unfolding spec_order_def order_criteria_sel single_cat single_start single_end bind_err_Inr
      cat_filter_None with_parsed_dates_fix [OF examples_datetime(1)] with_parsed_dates_fix [OF pc]
      step date_step_None ..
  moreover have "map fst (rows ?c) = [1]"
    unfolding c_eq by simp
  ultimately show ?thesis by simp
qed

text \<open>
  Claim C3, as stated, fails. The date fallback makes the order observable: the code
  filters by date first, keeps the contact called at 20, and the campaign filter then
  drops it, so nothing is left. In the order campaign first, the contact of campaign B is
  alone when the date filter runs, no row satisfies the bound, the fallback keeps
  everything, and one row (label 1) is left.
\<close>

theorem filters_spec_order_counterexample:
  "\<forall>conv. (\<exists>d. apply_filters conv order_example order_criteria = Inr d \<and> map fst (rows d) = [])
         \<and> (\<exists>d. spec_order conv order_example order_criteria = Inr d \<and> map fst (rows d) = [1])
         \<and> apply_filters conv order_example order_criteria \<noteq> spec_order conv order_example order_criteria"
proof
  fix conv
  from order_example_code [of conv] order_example_spec [of conv]
  show "(\<exists>d. apply_filters conv order_example order_criteria = Inr d \<and> map fst (rows d) = [])
         \<and> (\<exists>d. spec_order conv order_example order_criteria = Inr d \<and> map fst (rows d) = [1])
         \<and> apply_filters conv order_example order_criteria \<noteq> spec_order conv order_example order_criteria"
    by auto
qed


section \<open>Masks under different labels\<close>

lemma values_at_map_of:
  "distinct (map fst s) \<Longrightarrow> values_at s l = (case map_of s l of None \<Rightarrow> [] | Some v \<Rightarrow> [v])"
proof (induction s)
  case Nil
  show ?case by (simp add: values_at_def)
next
  case (Cons a s)
  obtain k v where a: "a = (k, v)" by (cases a)
  from Cons.prems have nk: "map_of s k = None" and ds: "distinct (map fst s)"
    by (simp_all add: a map_of_eq_None_iff)
  have step: "values_at (a # s) l = (if k = l then v # values_at s l else values_at s l)"
    by (simp add: values_at_def a)
  show ?case
    unfolding step Cons.IH [OF ds] using nk by (auto simp: a)
qed

lemma align_op_distinct:
  assumes "distinct (map fst a)" and "distinct (map fst b)" and "map fst a \<noteq> map fst b"
  shows "align_op f a b =
           map (\<lambda>l. (l, case map_of a l of None \<Rightarrow> False
                          | Some x \<Rightarrow> (case map_of b l of None \<Rightarrow> f x False | Some y \<Rightarrow> f x y)))
             (remdups (map fst a @ map fst b))"
proof -
  let ?val = "\<lambda>l. case map_of a l of None \<Rightarrow> False
                    | Some x \<Rightarrow> (case map_of b l of None \<Rightarrow> f x False | Some y \<Rightarrow> f x y)"
  let ?cell = "\<lambda>l. case values_at a l of
               [] \<Rightarrow> map (\<lambda>y. (l, False)) (values_at b l)
             | x # xs \<Rightarrow>
                 (case values_at b l of
                    [] \<Rightarrow> map (\<lambda>x. (l, f x False)) (x # xs)
                  | y # ys \<Rightarrow> concat (map (\<lambda>x. map (\<lambda>y. (l, f x y)) (y # ys)) (x # xs)))"
  have one: "?cell l = [(l, ?val l)]" if "l \<in> set (remdups (map fst a @ map fst b))" for l
  proof (cases "map_of a l")
    case None
    with that have "l \<in> fst ` set b"
      by (auto simp: map_of_eq_None_iff)
    then obtain y where "map_of b l = Some y"
      by (metis map_of_eq_None_iff not_Some_eq)
    with None show ?thesis
      by (simp add: values_at_map_of assms(1,2))
  next
    case (Some x)
    then show ?thesis
      by (cases "map_of b l") (simp_all add: values_at_map_of assms(1,2))
  qed
  have "map ?cell (remdups (map fst a @ map fst b))
        = map (\<lambda>l. [(l, ?val l)]) (remdups (map fst a @ map fst b))"
    by (rule map_cong [OF refl]) (rule one)
  then show ?thesis
    unfolding align_op_def if_not_P [OF assms(3)] by (simp only: concat_map_singleton)
qed

lemma map_of_graph: "map_of (map (\<lambda>l. (l, g l)) ls) l = (if l \<in> set ls then Some (g l) else None)"
  by (induction ls) auto

lemma getitem_bool_graph:
  assumes "distinct ls" and "set (index d) \<subseteq> set ls"
  shows "getitem_bool d (map (\<lambda>l. (l, g l)) ls) = Inr (d\<lparr>rows := filter (\<lambda>(l, r). g l) (rows d)\<rparr>)"
proof -
  let ?key = "map (\<lambda>l. (l, g l)) ls"
  have idx: "map fst ?key = ls" and snd: "map snd ?key = map g ls"
    by (simp_all add: comp_def)
  have dk: "distinct (map fst ?key)"
    using assms(1) by (simp add: comp_def)
  have at: "values_at ?key l = [g l]" if "l \<in> set ls" for l
    using that by (simp add: values_at_map_of [OF dk] map_of_graph)
  have "map (values_at ?key) (index d) = map (\<lambda>l. [g l]) (index d)"
    by (rule map_cong [OF refl]) (use assms(2) at in auto)
  then have cc: "concat (map (values_at ?key) (index d)) = map g (index d)"
    by (simp only: concat_map_singleton)
  have "reindex_key ?key (index d) = Inr (map g (index d))"
    unfolding reindex_key_def idx snd using assms(2) cc by auto
  then have vals: "reindex_key ?key (index d) = Inr (map (\<lambda>(l, r). g l) (rows d))"
    by (simp add: index_def case_prod_unfold comp_def)
  show ?thesis
  proof (cases "list_all (\<lambda>v. v) (map (\<lambda>(l, r). g l) (rows d))")
    case True
    then have "filter (\<lambda>(l, r). g l) (rows d) = rows d"
      by (simp add: list_all_iff case_prod_unfold)
    with True show ?thesis
      by (simp add: getitem_bool_def vals bind_err_Inr)
  next
    case False
    then show ?thesis
      by (simp add: getitem_bool_def vals bind_err_Inr take_true_map)
  qed
qed

lemma ssum_graph_zero: "ssum (map (\<lambda>l. (l, g l)) ls) = 0 \<longleftrightarrow> (\<forall>l\<in>set ls. \<not> g l)"
  by (auto simp: ssum_def filter_empty_conv)

lemma select_by_label:
  assumes "distinct ls" and "set (index d) \<subseteq> set ls"
    and row: "\<And>l r. (l, r) \<in> set (rows d) \<Longrightarrow> val l = p r"
    and some: "\<And>l. l \<in> set ls \<Longrightarrow> val l \<Longrightarrow> list_ex (\<lambda>(l, r). p r) (rows d)"
  shows "getitem_bool d (smap (\<lambda>v. v \<or> ssum (map (\<lambda>l. (l, val l)) ls) = 0) (map (\<lambda>l. (l, val l)) ls))
           = Inr (keep_or_all p d)"
proof -
  let ?E = "map (\<lambda>l. (l, val l)) ls"
  have zero: "ssum ?E = 0 \<longleftrightarrow> \<not> list_ex (\<lambda>(l, r). p r) (rows d)"
  proof
    assume z: "ssum ?E = 0"
    show "\<not> list_ex (\<lambda>(l, r). p r) (rows d)"
    proof
      assume "list_ex (\<lambda>(l, r). p r) (rows d)"
      then obtain l r where lr: "(l, r) \<in> set (rows d)" "p r"
        by (auto simp: list_ex_iff)
      then have "l \<in> set ls"
        using assms(2) by (force simp: index_def)
      moreover have "val l"
        using row [OF lr(1)] lr(2) by simp
      ultimately show False
        using z by (simp add: ssum_graph_zero)
    qed
  next
    assume "\<not> list_ex (\<lambda>(l, r). p r) (rows d)"
    then show "ssum ?E = 0"
      using some by (auto simp: ssum_graph_zero)
  qed
  have key: "smap (\<lambda>v. v \<or> ssum ?E = 0) ?E = map (\<lambda>l. (l, val l \<or> ssum ?E = 0)) ls"
    by (simp add: smap_def)
  have "filter (\<lambda>(l, r). val l \<or> ssum ?E = 0) (rows d)
        = filter (\<lambda>(l, r). p r \<or> \<not> list_ex (\<lambda>(l, r). p r) (rows d)) (rows d)"
    by (rule filter_cong [OF refl]) (auto simp: zero row)
  then have "getitem_bool d (smap (\<lambda>v. v \<or> ssum ?E = 0) ?E)
        = Inr (keep_rows (\<lambda>r. p r \<or> \<not> list_ex (\<lambda>(l, r). p r) (rows d)) d)"
    unfolding key getitem_bool_graph [OF assms(1,2)] by (simp add: keep_rows_def)
  then show ?thesis
    by (simp only: keep_rows_or_none)
qed

lemma map_of_series_false: "map_of (series_false n) l = (if l < n then Some False else None)"
  by (simp add: series_false_def map_of_graph)

lemma map_of_row_series:
  "distinct (map fst rws) \<Longrightarrow> (l, r) \<in> set rws \<Longrightarrow> map_of (row_series p rws) l = Some (p r)"
  by (induction rws) (auto simp: row_series_def rev_image_eqI)

lemma map_of_row_series_True:
  "map_of (row_series p rws) l = Some True \<Longrightarrow> list_ex (\<lambda>(l, r). p r) rws"
  by (induction rws) (auto simp: row_series_def split: if_splits)

lemma index_series_false: "map fst (series_false n) = [0..<n]"
  by (simp add: series_false_def comp_def)

lemma date_filter_call_only:
  assumes present: "call_col \<in> set (columns d)" and absent: "activity_col \<notin> set (columns d)"
    and dist: "distinct (index d)" and cmp: "cmp = cell_ge \<or> cmp = cell_le"
    and comp: "(call_col \<in> tz_aware d) = ts_aware b"
    and ne: "index d \<noteq> [0..<length (rows d)]"
  shows "date_filter cmp d b = Inr (keep_or_all (\<lambda>r. cmp (r call_col) b) d)"
proof -
  let ?p = "\<lambda>r. cmp (r call_col) b"
  let ?n = "length (rows d)"
  let ?mc = "row_series ?p (rows d)"
  let ?ls = "remdups (map fst ?mc @ map fst (series_false ?n))"
  let ?val = "\<lambda>l. case map_of ?mc l of None \<Rightarrow> False
                    | Some x \<Rightarrow> (case map_of (series_false ?n) l of None \<Rightarrow> x \<or> False | Some y \<Rightarrow> x \<or> y)"
  have dl: "distinct (map fst (rows d))"
    using dist by (simp add: index_def)
  have mc: "date_mask cmp d call_col b = Inr ?mc"
    by (simp add: date_mask_present [OF present comp] cmp_notna [OF cmp])
  have me: "date_mask cmp d activity_col b = Inr (series_false ?n)"
    by (rule date_mask_absent [OF absent])
  have either: "series_or ?mc (series_false ?n) = map (\<lambda>l. (l, ?val l)) ?ls"
    unfolding series_or_def
    by (rule align_op_distinct)
       (use dl ne in \<open>simp_all add: index_row_series index_series_false index_def\<close>)
  have val: "?val l = (map_of ?mc l = Some True)" for l
    by (auto simp: map_of_series_false split: option.splits)
  have sel: "getitem_bool d (smap (\<lambda>v. v \<or> ssum (map (\<lambda>l. (l, ?val l)) ?ls) = 0) (map (\<lambda>l. (l, ?val l)) ?ls))
               = Inr (keep_or_all ?p d)"
  proof (rule select_by_label)
    show "distinct ?ls" by simp
    show "set (index d) \<subseteq> set ?ls" by (auto simp: index_row_series index_def)
    show "?val l = ?p r" if "(l, r) \<in> set (rows d)" for l r
    proof -
      have "?val l = (map_of ?mc l = Some True)"
        by (rule val)
      also have "\<dots> = ?p r"
        by (simp add: map_of_row_series [OF dl that])
      finally show ?thesis .
    qed
    show "list_ex (\<lambda>(l, r). ?p r) (rows d)" if "?val l" for l
      using that unfolding val by (rule map_of_row_series_True)
  qed
  show ?thesis
    by (simp only: date_filter_def mc me bind_err_Inr Let_def either sel)
qed

lemma date_filter_activity_only:
  assumes absent: "call_col \<notin> set (columns d)" and present: "activity_col \<in> set (columns d)"
    and dist: "distinct (index d)" and cmp: "cmp = cell_ge \<or> cmp = cell_le"
    and comp: "(activity_col \<in> tz_aware d) = ts_aware b"
    and ne: "index d \<noteq> [0..<length (rows d)]"
    and sub: "set (index d) \<subseteq> {..<length (rows d)}"
  shows "date_filter cmp d b = Inr (keep_or_all (\<lambda>r. cmp (r activity_col) b) d)"
proof -
  let ?p = "\<lambda>r. cmp (r activity_col) b"
  let ?n = "length (rows d)"
  let ?me = "row_series ?p (rows d)"
  let ?ls = "remdups (map fst (series_false ?n) @ map fst ?me)"
  let ?val = "\<lambda>l. case map_of (series_false ?n) l of None \<Rightarrow> False
                    | Some x \<Rightarrow> (case map_of ?me l of None \<Rightarrow> x \<or> False | Some y \<Rightarrow> x \<or> y)"
  have dl: "distinct (map fst (rows d))"
    using dist by (simp add: index_def)
  have mc: "date_mask cmp d call_col b = Inr (series_false ?n)"
    by (rule date_mask_absent [OF absent])
  have me: "date_mask cmp d activity_col b = Inr ?me"
    by (simp add: date_mask_present [OF present comp] cmp_notna [OF cmp])
  have either: "series_or (series_false ?n) ?me = map (\<lambda>l. (l, ?val l)) ?ls"
    unfolding series_or_def
    by (rule align_op_distinct)
       (use dl ne in \<open>simp_all add: index_row_series index_series_false index_def\<close>)
  have val: "?val l = (l < ?n \<and> map_of ?me l = Some True)" for l
    by (auto simp: map_of_series_false split: option.splits)
  have sel: "getitem_bool d (smap (\<lambda>v. v \<or> ssum (map (\<lambda>l. (l, ?val l)) ?ls) = 0) (map (\<lambda>l. (l, ?val l)) ?ls))
               = Inr (keep_or_all ?p d)"
  proof (rule select_by_label)
    show "distinct ?ls" by simp
    show "set (index d) \<subseteq> set ?ls" by (auto simp: index_row_series index_def)
    show "?val l = ?p r" if "(l, r) \<in> set (rows d)" for l r
    proof -
      from that have "l \<in> set (index d)"
        by (force simp: index_def)
      with sub have "l < ?n" by auto
      have "?val l = (l < ?n \<and> map_of ?me l = Some True)"
        by (rule val)
      also have "\<dots> = ?p r"
        using \<open>l < ?n\<close> by (simp add: map_of_row_series [OF dl that])
      finally show ?thesis .
    qed
    show "list_ex (\<lambda>(l, r). ?p r) (rows d)" if "?val l" for l
      using that unfolding val by (auto intro: map_of_row_series_True)
  qed
  show ?thesis
    by (simp only: date_filter_def mc me bind_err_Inr Let_def either sel)
qed

lemma keep_or_all_none: "(\<And>r. \<not> P r) \<Longrightarrow> keep_or_all P d = d"
  by (simp add: keep_or_all_def list_ex_iff)

lemma date_filter_labels:
  assumes al: "labels_align d" and comp: "comparable d b" and cmp: "cmp = cell_ge \<or> cmp = cell_le"
  shows "date_filter cmp d b = Inr (keep_or_all (bound_ok cmp d b) d)"
proof (cases "(call_col \<in> set (columns d) \<and> activity_col \<in> set (columns d))
              \<or> index d = [0..<length (rows d)]")
  case True
  then show ?thesis
    by (rule date_filter_default [OF _ comp cmp])
next
  case False
  with al have dist: "distinct (index d)"
    and sub: "call_col \<in> set (columns d) \<or> set (index d) \<subseteq> {..<length (rows d)}"
    and ne: "index d \<noteq> [0..<length (rows d)]"
    by (auto simp: labels_align_def)
  consider (call) "call_col \<in> set (columns d)" "activity_col \<notin> set (columns d)"
    | (activity) "call_col \<notin> set (columns d)" "activity_col \<in> set (columns d)"
    | (neither) "call_col \<notin> set (columns d)" "activity_col \<notin> set (columns d)"
    using False by blast
  then show ?thesis
  proof cases
    case call
    have "bound_ok cmp d b = (\<lambda>r. cmp (r call_col) b)"
      using call by (simp add: bound_ok_def cell_of_def cmp_NaN [OF cmp] fun_eq_iff)
    moreover have "(call_col \<in> tz_aware d) = ts_aware b"
      using comp call by (simp add: comparable_def comparable_column_def)
    ultimately show ?thesis
      using date_filter_call_only [OF call dist cmp _ ne] by simp
  next
    case activity
    have "bound_ok cmp d b = (\<lambda>r. cmp (r activity_col) b)"
      using activity by (simp add: bound_ok_def cell_of_def cmp_NaN [OF cmp] fun_eq_iff)
    moreover have "(activity_col \<in> tz_aware d) = ts_aware b"
      using comp activity by (simp add: comparable_def comparable_column_def)
    moreover have "set (index d) \<subseteq> {..<length (rows d)}"
      using sub activity by simp
    ultimately show ?thesis
      using date_filter_activity_only [OF activity dist cmp _ ne] by simp
  next
    case neither
    have "keep_or_all (bound_ok cmp d b) d = d"
      by (rule keep_or_all_none)
         (simp add: bound_ok_def cell_of_def neither cmp_NaN [OF cmp])
    moreover have "set (index d) \<subseteq> {..<length (rows d)}"
      using sub neither by simp
    ultimately show ?thesis
      by (simp add: date_filter_neither [OF neither])
  qed
qed


section \<open>A categorical filter on an absent column\<close>

lemma tz_aware_to_datetime_col_iff:
  "(c \<in> tz_aware (to_datetime_col conv d col)) =
     (if c = col \<and> col \<in> set (columns d)
      then fst (to_datetime conv (col \<in> tz_aware d) (column_cells d col))
      else c \<in> tz_aware d)"
  by (auto simp: to_datetime_col_def column_cells_def split: prod.splits)

lemma with_parsed_dates_cells:
  "column_cells (with_parsed_dates conv df) col =
     (if col \<in> set (columns df) \<and> (col = call_col \<or> col = activity_col)
      then snd (to_datetime conv (col \<in> tz_aware df) (column_cells df col))
      else column_cells df col)"
  using date_cols_distinct
  by (auto simp: with_parsed_dates_def column_cells_to_datetime_col to_datetime_col_columns
      tz_aware_to_datetime_col_iff)

lemma with_parsed_dates_tz:
  "(col \<in> tz_aware (with_parsed_dates conv df)) =
     (if col \<in> set (columns df) \<and> (col = call_col \<or> col = activity_col)
      then fst (to_datetime conv (col \<in> tz_aware df) (column_cells df col))
      else col \<in> tz_aware df)"
  using date_cols_distinct
  by (auto simp: with_parsed_dates_def column_cells_to_datetime_col to_datetime_col_columns
      tz_aware_to_datetime_col_iff)

text \<open>
  Claim C8, as amended. When the criteria hold no date bound and every categorical list
  they hold is for a column the dataset lacks, \<open>apply_filters\<close> raises nothing and
  returns a dataset with the same columns and the same rows, in order and under their
  labels, in which every column is what it was, except the date columns that are present:
  each of these is the result of \<open>pd.to_datetime\<close> on the column as a whole, and carries a
  time zone as that result does.
\<close>

theorem absent_column_filter_keeps_rows:
  assumes "start_date crit = None" and "end_date crit = None"
    and "campaigns crit = None \<or> campaign_col \<notin> set (columns df)"
    and "titles crit = None \<or> title_col \<notin> set (columns df)"
    and "sectors crit = None \<or> sector_col \<notin> set (columns df)"
    and "sizes crit = None \<or> size_col \<notin> set (columns df)"
    and "locations crit = None \<or> location_col \<notin> set (columns df)"
  shows "\<exists>d. apply_filters conv df crit = Inr d
           \<and> columns d = columns df \<and> index d = index df
           \<and> (\<forall>col. column_cells d col =
                 (if col \<in> set (columns df) \<and> (col = call_col \<or> col = activity_col)
                  then snd (to_datetime conv (col \<in> tz_aware df) (column_cells df col))
                  else column_cells df col))
           \<and> (\<forall>col. (col \<in> tz_aware d) =
                 (if col \<in> set (columns df) \<and> (col = call_col \<or> col = activity_col)
                  then fst (to_datetime conv (col \<in> tz_aware df) (column_cells df col))
                  else col \<in> tz_aware df))"
proof -
  have absent: "v = None \<or> col \<notin> set (columns d) \<Longrightarrow> cat_filter col v d = d" for v col d
    by (auto simp: cat_filter_def split: option.splits)
  have "cat_filters crit (with_parsed_dates conv df) = with_parsed_dates conv df"
    using assms(3-7) by (simp add: cat_filters_def absent with_parsed_dates_shape)
  then have out: "apply_filters conv df crit = Inr (with_parsed_dates conv df)"
    using assms(1,2) by (simp add: apply_filters_eq date_step_None bind_err_Inr)
  show ?thesis
    apply (rule exI [of _ "with_parsed_dates conv df"])
    apply (simp only: out with_parsed_dates_shape with_parsed_dates_cells with_parsed_dates_tz simp_thms)
    done
qed

text \<open>
  A dataset without a campaign column, filtered by campaign: the one row is kept under its
  label 0 and its tag is what it was.
\<close>

theorem absent_column_filter_witness:
  "campaign_col \<notin> set (columns text_date_example)
   \<and> (\<forall>conv. \<exists>d. apply_filters conv text_date_example (no_criteria\<lparr>campaigns := Some [''Campaign A'']\<rparr>) = Inr d
          \<and> index d = [0] \<and> column_cells d tags_col = [Str ''Pitch''])"
proof -
  have absent: "campaign_col \<notin> set (columns text_date_example)"
    by (simp add: text_date_example_def campaign_col_def call_col_def tags_col_def)
  have idx: "index text_date_example = [0]"
    and tags: "column_cells text_date_example tags_col = [Str ''Pitch'']"
    by (simp_all add: index_def column_cells_def text_date_example_def)
  have "\<exists>d. apply_filters conv text_date_example (no_criteria\<lparr>campaigns := Some [''Campaign A'']\<rparr>) = Inr d
          \<and> index d = [0] \<and> column_cells d tags_col = [Str ''Pitch'']" for conv
    using absent_column_filter_keeps_rows
      [of "no_criteria\<lparr>campaigns := Some [''Campaign A'']\<rparr>" text_date_example conv]
    by (auto simp: no_criteria_def absent idx tags col_facts)
  with absent show ?thesis by simp
qed

text \<open>
  Claim C8, as stated, fails: the dataset that comes back is not the one that went in.
  The call timestamp column held a text; after the conversion it holds none, whatever
  pandas makes of the text.
\<close>

theorem absent_column_filter_counterexample:
  "\<forall>conv. apply_filters conv text_date_example (no_criteria\<lparr>campaigns := Some [''Campaign A'']\<rparr>)
     \<noteq> Inr text_date_example"
proof
  fix conv
  let ?out = "with_parsed_dates conv text_date_example"
  have absent: "campaign_col \<notin> set (columns text_date_example)"
    by (simp add: text_date_example_def campaign_col_def call_col_def tags_col_def)
  have "cat_filter campaign_col (Some [''Campaign A'']) ?out = ?out"
    using absent by (simp add: cat_filter_def with_parsed_dates_shape)
  then have out: "apply_filters conv text_date_example (no_criteria\<lparr>campaigns := Some [''Campaign A'']\<rparr>) = Inr ?out"
    by (simp add: single_cat)
  have "list_all is_datetime (column_cells ?out call_col)"
    by (simp add: with_parsed_dates_cells to_datetime_is_datetime text_date_example_def)
  moreover have "\<not> list_all is_datetime (column_cells text_date_example call_col)"
    by (simp add: column_cells_def text_date_example_def is_datetime_def col_facts)
  ultimately have "?out \<noteq> text_date_example" by auto
  with out show "apply_filters conv text_date_example (no_criteria\<lparr>campaigns := Some [''Campaign A'']\<rparr>)
     \<noteq> Inr text_date_example" by simp
qed

section \<open>Date bounds\<close>

lemma bound_ok_ge: "bound_ok cell_ge d b = on_or_after d (ts_instant b)"
  by (auto simp: bound_ok_def on_or_after_def instant_def cell_ge_def fun_eq_iff split: cell.splits)

lemma bound_ok_le: "bound_ok cell_le d b = on_or_before d (ts_instant b)"
  by (auto simp: bound_ok_def on_or_before_def instant_def cell_le_def fun_eq_iff split: cell.splits)

lemma labels_align_with_parsed_dates:
  "labels_align df \<Longrightarrow> labels_align (with_parsed_dates conv df)"
  by (simp add: labels_align_def with_parsed_dates_shape)

lemma date_filter_incomparable:
  assumes "\<not> comparable d b"
  shows "date_filter cmp d b = Inl TypeError"
proof (cases "comparable_column d call_col b")
  case False
  then show ?thesis
    by (simp add: comparable_column_def date_filter_def date_mask_mismatch bind_err_Inl)
next
  case True
  with assms have a: "activity_col \<in> set (columns d)" "(activity_col \<in> tz_aware d) \<noteq> ts_aware b"
    by (auto simp: comparable_def comparable_column_def)
  from True have "\<exists>m. date_mask cmp d call_col b = Inr m"
    by (cases "call_col \<in> set (columns d)")
       (simp_all add: comparable_column_def date_mask_present date_mask_absent)
  then obtain m where m: "date_mask cmp d call_col b = Inr m" ..
  show ?thesis
    by (simp add: date_filter_def m bind_err_Inr date_mask_mismatch [OF a] bind_err_Inl)
qed

text \<open>
  Claim C4, as amended. Take a dataset that has both date columns, or whose row labels
  are pairwise distinct and, unless the call timestamp column is present, all below the
  number of rows (as the default labels are), and a bound with which each converted date
  column that is present can be compared. For a start bound, \<open>apply_filters\<close> returns the dataset with its date
  columns converted, and retains exactly the rows in which at least one of the two
  instants is present and on or after the bound, except that when no row is such a row it
  retains every row, dated or not. The same holds for an end bound with on or before.
\<close>

theorem date_bound_retains:
  assumes "labels_align df"
    and "comparable (with_parsed_dates conv df) s"
    and "comparable (with_parsed_dates conv df) e"
  shows "apply_filters conv df (no_criteria\<lparr>start_date := Some s\<rparr>) =
           Inr (let d = with_parsed_dates conv df in
                if list_ex (\<lambda>(l, r). on_or_after d (ts_instant s) r) (rows d)
                then d\<lparr>rows := filter (\<lambda>(l, r). on_or_after d (ts_instant s) r) (rows d)\<rparr>
                else d)
       \<and> apply_filters conv df (no_criteria\<lparr>end_date := Some e\<rparr>) =
           Inr (let d = with_parsed_dates conv df in
                if list_ex (\<lambda>(l, r). on_or_before d (ts_instant e) r) (rows d)
                then d\<lparr>rows := filter (\<lambda>(l, r). on_or_before d (ts_instant e) r) (rows d)\<rparr>
                else d)"
proof -
  note al = labels_align_with_parsed_dates [OF assms(1), of conv]
  have "apply_filters conv df (no_criteria\<lparr>start_date := Some s\<rparr>)
        = Inr (keep_or_all (on_or_after (with_parsed_dates conv df) (ts_instant s)) (with_parsed_dates conv df))"
    by (simp add: single_start date_step_def date_filter_labels [OF al assms(2)] bound_ok_ge)
  moreover have "apply_filters conv df (no_criteria\<lparr>end_date := Some e\<rparr>)
        = Inr (keep_or_all (on_or_before (with_parsed_dates conv df) (ts_instant e)) (with_parsed_dates conv df))"
    by (simp add: single_end date_step_def date_filter_labels [OF al assms(3)] bound_ok_le)
  ultimately show ?thesis
    by (simp add: keep_or_all_def keep_rows_def Let_def)
qed

text \<open>
  Two contacts under the default labels, called at instants 20 and 5: a start bound of 10
  keeps the first, an end bound of 10 keeps the second.
\<close>

theorem date_bound_retains_witness:
  "labels_align order_example
   \<and> (\<forall>conv. comparable (with_parsed_dates conv order_example) (Timestamp False 10)
            \<and> (\<exists>d. apply_filters conv order_example (no_criteria\<lparr>start_date := Some (Timestamp False 10)\<rparr>) = Inr d
                    \<and> map fst (rows d) = [0])
            \<and> (\<exists>d. apply_filters conv order_example (no_criteria\<lparr>end_date := Some (Timestamp False 10)\<rparr>) = Inr d
                    \<and> map fst (rows d) = [1]))"
proof -
  have al: "labels_align order_example"
    by (simp add: labels_align_def order_example_def index_def upt_rec)
  have fixed: "with_parsed_dates conv order_example = order_example" for conv
    by (rule with_parsed_dates_fix) (rule examples_datetime)
  have cmp: "comparable order_example (Timestamp False 10)"
    by (simp add: comparable_def comparable_column_def order_example_def)
  have ev: "list_ex (\<lambda>(l, r). on_or_after order_example 10 r) (rows order_example)"
       "map fst (filter (\<lambda>(l, r). on_or_after order_example 10 r) (rows order_example)) = [0]"
       "list_ex (\<lambda>(l, r). on_or_before order_example 10 r) (rows order_example)"
       "map fst (filter (\<lambda>(l, r). on_or_before order_example 10 r) (rows order_example)) = [1]"
    by (simp_all add: order_example_def on_or_after_def on_or_before_def
        instant_def cell_of_def col_facts)
  have "(\<exists>d. apply_filters conv order_example (no_criteria\<lparr>start_date := Some (Timestamp False 10)\<rparr>) = Inr d
                    \<and> map fst (rows d) = [0])
            \<and> (\<exists>d. apply_filters conv order_example (no_criteria\<lparr>end_date := Some (Timestamp False 10)\<rparr>) = Inr d
                    \<and> map fst (rows d) = [1])" for conv
    using date_bound_retains [of order_example conv "Timestamp False 10" "Timestamp False 10"] al cmp ev
    by (simp add: fixed Let_def)
  with al cmp show ?thesis
    by (simp add: fixed)
qed

text \<open>
  Claim C4, as stated, fails: the fallback does not retain the undated rows only. The one
  contact here was called at instant 5, before the bound 10; no row meets the bound, and
  the code keeps the contact, which the claim excludes.
\<close>

theorem date_bound_counterexample:
  "\<forall>conv. (\<exists>d. apply_filters conv early_call_example (no_criteria\<lparr>start_date := Some (Timestamp False 10)\<rparr>) = Inr d
                  \<and> map fst (rows d) = [0])
          \<and> map fst (claimed_start_rows conv early_call_example 10) = []"
proof
  fix conv
  have fixed: "with_parsed_dates conv early_call_example = early_call_example"
    by (rule with_parsed_dates_fix) (rule examples_datetime)
  have al: "labels_align early_call_example"
    by (simp add: labels_align_def early_call_example_def index_def)
  have cmp: "comparable early_call_example (Timestamp False 10)"
    by (simp add: comparable_def comparable_column_def early_call_example_def)
  have ev: "\<not> list_ex (\<lambda>(l, r). on_or_after early_call_example 10 r) (rows early_call_example)"
    by (simp add: early_call_example_def on_or_after_def instant_def cell_of_def col_facts)
  have "map fst (rows early_call_example) = [0]"
    by (simp add: early_call_example_def)
  moreover have "map fst (claimed_start_rows conv early_call_example 10) = []"
    unfolding claimed_start_rows_def fixed
    by (simp add: early_call_example_def on_or_after_def undated_def instant_def cell_of_def col_facts)
  ultimately show "(\<exists>d. apply_filters conv early_call_example (no_criteria\<lparr>start_date := Some (Timestamp False 10)\<rparr>) = Inr d
                  \<and> map fst (rows d) = [0])
          \<and> map fst (claimed_start_rows conv early_call_example 10) = []"
    using single_start [of conv early_call_example "Some (Timestamp False 10)"]
      date_filter_labels [OF al cmp, of cell_ge] ev
    by (simp add: fixed date_step_def bound_ok_ge keep_or_all_def)
qed

section \<open>Filtering twice\<close>

text \<open>
  Claim C7 does not hold of the code. On the dataset without date columns the first
  application keeps the contact of campaign B, under its label 1. Applied to that
  result, the date filter builds both masks with \<open>pd.Series([False] * len(data))\<close>,
  whose only label is 0, and the selection raises IndexingError instead of returning the
  same dataset.
\<close>

theorem second_application_raises:
  "\<forall>conv. \<exists>d. apply_filters conv undated_example order_criteria = Inr d
                \<and> map fst (rows d) = [1]
                \<and> apply_filters conv d order_criteria = Inl IndexingError"
proof
  fix conv
  let ?b = "Timestamp False 10"
  have none: "call_col \<notin> set (columns undated_example)" "activity_col \<notin> set (columns undated_example)"
    by (simp_all add: undated_example_def col_facts)
  have s1: "date_filter cell_ge undated_example ?b = Inr undated_example"
    by (simp add: date_filter_neither [OF none]) (simp add: undated_example_def index_def)
  let ?d = "cat_filters order_criteria undated_example"
  have first: "apply_filters conv undated_example order_criteria = Inr ?d"
    unfolding apply_filters_eq order_criteria_sel with_parsed_dates_fix [OF examples_datetime(2)]
    by (simp add: date_step_def s1 bind_err_Inr)
  have d_eq: "?d = undated_example\<lparr>rows := [(1, (\<lambda>c. NaN)(campaign_col := Str ''B''))]\<rparr>"
    by (simp add: cat_filters_def order_criteria_sel cat_filter_None)
       (simp add: cat_filter_def keep_rows_def undated_example_def isin_def fillna_empty_def)
  have d_idx: "map fst (rows ?d) = [1]"
    unfolding d_eq by simp
  have dt: "datetime_columns ?d"
    unfolding d_eq by (simp add: datetime_columns_def datetime_column_def undated_example_def col_facts)
  have none2: "call_col \<notin> set (columns ?d)" "activity_col \<notin> set (columns ?d)"
    unfolding d_eq by (simp_all add: undated_example_def col_facts)
  have s2: "date_filter cell_ge ?d ?b = Inl IndexingError"
    unfolding date_filter_neither [OF none2]
    unfolding d_eq by (simp add: index_def)
  have second: "apply_filters conv ?d order_criteria = Inl IndexingError"
    unfolding apply_filters_eq order_criteria_sel with_parsed_dates_fix [OF dt]
    by (simp add: date_step_def s2 bind_err_Inl)
  show "\<exists>d. apply_filters conv undated_example order_criteria = Inr d
                \<and> map fst (rows d) = [1]
                \<and> apply_filters conv d order_criteria = Inl IndexingError"
    by (rule exI [of _ "cat_filters order_criteria undated_example"])
       (simp only: first d_idx second simp_thms)
qed


section \<open>Rows under other labels, and bounds that cannot be compared\<close>

text \<open>
  The condition on the labels is needed. On the dataset below the call column is absent
  and the labels 5 and 7 are not below the number of rows. The mask that stands in for
  the call column is the left operand of \<open>|\<close>; the labels 5 and 7 are missing from it,
  so the union is False everywhere and the fallback keeps both rows, although the first
  meets the bound and the second is dated before it.
\<close>

lemma relabelled_rows_kept:
  "\<not> labels_align relabelled_example
   \<and> apply_filters conv relabelled_example (no_criteria\<lparr>start_date := Some (Timestamp False 10)\<rparr>)
     = Inr relabelled_example"
proof -
  let ?b = "Timestamp False 10"
  have dt: "datetime_columns relabelled_example"
    by (simp add: datetime_columns_def datetime_column_def column_cells_def is_datetime_def
        relabelled_example_def col_facts)
  have cols: "call_col \<notin> set (columns relabelled_example)"
    "activity_col \<in> set (columns relabelled_example)"
    "(activity_col \<in> tz_aware relabelled_example) = ts_aware ?b"
    by (simp_all add: relabelled_example_def col_facts)
  have mc: "date_mask cell_ge relabelled_example call_col ?b = Inr [(0, False), (1, False)]"
    unfolding date_mask_absent [OF cols(1)]
    by (simp add: relabelled_example_def series_false_def upt_rec)
  have me: "date_mask cell_ge relabelled_example activity_col ?b = Inr [(5, True), (7, False)]"
    unfolding date_mask_present [OF cols(2,3)]
    by (simp add: relabelled_example_def row_series_def cell_ge_def)
  have either: "series_or [(0, False), (1, False)] [(5, True), (7, False)]
                  = [(0, False), (1, False), (5, False), (7, False)]"
    by (simp add: series_or_def align_op_def values_at_def)
  have key: "smap (\<lambda>v. v \<or> ssum [(0, False), (1, False), (5, False), (7, False)] = 0)
               [(0, False), (1, False), (5, False), (7, False)]
             = [(0, True), (1, True), (5, True), (7, True)]"
    by (simp add: smap_def ssum_def)
  have idx: "index relabelled_example = [5, 7]"
    by (simp add: index_def relabelled_example_def)
  have sel: "getitem_bool relabelled_example [(0, True), (1, True), (5, True), (7, True)]
               = Inr relabelled_example"
    by (simp add: getitem_bool_def idx reindex_key_def values_at_def bind_err_Inr)
  have "date_step cell_ge (Some ?b) relabelled_example = Inr relabelled_example"
    by (simp only: date_step_def option.simps date_filter_def mc me bind_err_Inr either key sel Let_def)
  then have "apply_filters conv relabelled_example (no_criteria\<lparr>start_date := Some ?b\<rparr>)
     = Inr relabelled_example"
    by (simp only: single_start with_parsed_dates_fix [OF dt])
  moreover have "\<not> labels_align relabelled_example"
    by (simp add: labels_align_def cols(1) idx) (simp add: relabelled_example_def)
  ultimately show ?thesis
    by simp
qed

text \<open>
  When a converted date column carries a time zone and the bound carries none, or the
  other way round, the comparison raises TypeError.
\<close>

lemma incomparable_bound_raises:
  assumes "\<not> comparable (with_parsed_dates conv df) b"
  shows "apply_filters conv df (no_criteria\<lparr>start_date := Some b\<rparr>) = Inl TypeError"
    and "apply_filters conv df (no_criteria\<lparr>end_date := Some b\<rparr>) = Inl TypeError"
  using assms by (simp_all add: single_start single_end date_step_def date_filter_incomparable)

text \<open>
  \<open>str.strip\<close> removes the no-break space: the contact of this dataset is a meeting by
  telephone, and therefore not one by e-mail.
\<close>

lemma padded_tag_metrics:
  "\<exists>m. compute_metrics ts_str padded_tag_example = Inr m \<and> rdv_phone m = 1 \<and> rdv_email m = 0"
proof -
  note tags = split_tags_examples(6) [of ts_str, simplified]
  have c: "count_rows (rdv_phone_row ts_str padded_tag_example) padded_tag_example = 1"
    "count_rows (rdv_email_row ts_str padded_tag_example) padded_tag_example = 0"
    using col_names_distinct
    by (simp_all add: count_rows_def rdv_email_row_def rdv_phone_row_def called_def tagged_def
        cell_of_def padded_tag_example_def tags has_any_tag_def CALL_TAGS_RDV_def)
  show ?thesis
    by (rule exI [of _ "projr (compute_metrics ts_str padded_tag_example)"])
       (simp only: compute_metrics_eq sum.sel c metrics.simps simp_thms)
qed

end
